theory Spec2Isabelle
  imports Complex_Main "HOL-Library.Multiset"
begin

section \<open>Cards and hands\<close>

text \<open>
  The development embeds the Blackjack engine of \<^verbatim>\<open>Old/v1.1 (broken)/BJC.py\<close>, the
  variant with the multi-deck shoe, the blackjack flags and the double down, which is the
  one the specification follows. Of the single-deck script \<^verbatim>\<open>BJC.py\<close>, which has no
  shoe object, no blackjack rule and no double down, the hand valuation, the bet and the
  result phase are embedded as well, under names of their own.

  \<^verbatim>\<open>SUITS\<close> and \<^verbatim>\<open>RANKS\<close> are closed lists of strings in the source; every card is
  built from them, so they are datatypes here, listed in the source's order.
\<close>

datatype suit = Hearts | Diamonds | Clubs | Spades

datatype rank = R2 | R3 | R4 | R5 | R6 | R7 | R8 | R9 | R10 | J | Q | K | A

definition SUITS :: "suit list" where
  "SUITS = [Hearts, Diamonds, Clubs, Spades]"

definition RANKS :: "rank list" where
  "RANKS = [R2, R3, R4, R5, R6, R7, R8, R9, R10, J, Q, K, A]"

text \<open>\<^verbatim>\<open>int(rank)\<close> on the ranks that are neither a face card nor the Ace.\<close>

fun int_of_rank :: "rank \<Rightarrow> int" where
  "int_of_rank R2 = 2"
| "int_of_rank R3 = 3"
| "int_of_rank R4 = 4"
| "int_of_rank R5 = 5"
| "int_of_rank R6 = 6"
| "int_of_rank R7 = 7"
| "int_of_rank R8 = 8"
| "int_of_rank R9 = 9"
| "int_of_rank R10 = 10"
| "int_of_rank r = 0"

text \<open>
  class \<^verbatim>\<open>Card\<close>: the fields \<^verbatim>\<open>suit\<close> and \<^verbatim>\<open>rank\<close>; the field \<^verbatim>\<open>value\<close> is
  computed from the rank by the constructor and never assigned again, so it is a
  function of the card.
\<close>

datatype card = Card (suit: suit) (rank: rank)

definition card_value :: "card \<Rightarrow> int" where
  "card_value c =
     (if rank c \<in> {J, Q, K} then 10
      else if rank c = A then 11
      else int_of_rank (rank c))"

text \<open>class \<^verbatim>\<open>Hand\<close> has the single field \<^verbatim>\<open>cards\<close>.\<close>

type_synonym hand = "card list"

text \<open>\<^verbatim>\<open>Hand.add_card\<close>: a missing card (\<^verbatim>\<open>None\<close>) is ignored.\<close>

fun add_card :: "hand \<Rightarrow> card option \<Rightarrow> hand" where
  "add_card h None = h"
| "add_card h (Some c) = h @ [c]"

text \<open>
  \<^verbatim>\<open>calculate_hand_value\<close>: the \<^verbatim>\<open>for\<close> loop threads \<^verbatim>\<open>value\<close> and \<^verbatim>\<open>aces\<close>
  through the cards, the \<^verbatim>\<open>while\<close> loop takes 10 off per Ace while the total is above 21.
\<close>

fun count_cards :: "card list \<Rightarrow> int \<Rightarrow> nat \<Rightarrow> int \<times> nat" where
  "count_cards [] val aces = (val, aces)"
| "count_cards (c # cs) val aces =
     count_cards cs (val + card_value c) (if rank c = A then aces + 1 else aces)"

fun adjust_aces :: "int \<Rightarrow> nat \<Rightarrow> int" where
  "adjust_aces val aces =
     (if val > 21 \<and> aces > 0 then adjust_aces (val - 10) (aces - 1) else val)"

declare adjust_aces.simps [simp del]

definition calculate_hand_value :: "hand \<Rightarrow> int" where
  "calculate_hand_value h =
     (if h = [] then 0
      else case count_cards h 0 0 of (val, aces) \<Rightarrow> adjust_aces val aces)"

text \<open>
  \<^verbatim>\<open>calculate_hand_value\<close> of the single-deck script: a card is a pair of suit and rank,
  and the value of a rank is computed inside the loop.
\<close>

fun count_pairs :: "(suit \<times> rank) list \<Rightarrow> int \<Rightarrow> nat \<Rightarrow> int \<times> nat" where
  "count_pairs [] val aces = (val, aces)"
| "count_pairs (c # cs) val aces =
     (let rank = snd c in
      if rank \<in> {J, Q, K} then count_pairs cs (val + 10) aces
      else if rank = A then count_pairs cs (val + 11) (aces + 1)
      else count_pairs cs (val + int_of_rank rank) aces)"

definition calculate_hand_value_pairs :: "(suit \<times> rank) list \<Rightarrow> int" where
  "calculate_hand_value_pairs h =
     (case count_pairs h 0 0 of (val, aces) \<Rightarrow> adjust_aces val aces)"

text \<open>The number of Aces in a hand, and its total with every Ace at 1.\<close>

definition num_aces :: "hand \<Rightarrow> nat" where
  "num_aces h = length (filter (\<lambda>c. rank c = A) h)"

definition base_total :: "hand \<Rightarrow> int" where
  "base_total h = sum_list (map card_value h)"

definition hard_total :: "hand \<Rightarrow> int" where
  "hard_total h = base_total h - 10 * int (num_aces h)"

section \<open>The shoe\<close>

text \<open>
  Money is a Python float in the source. Amounts are modelled as exact rationals, and
  \<^verbatim>\<open>RESHUFFLE_THRESHOLD = 0.25\<close> as the rational \<open>1 / 4\<close>; rounding of floating point
  arithmetic is outside the model.
\<close>

definition NUM_DECKS :: int where
  "NUM_DECKS = 4"

definition RESHUFFLE_THRESHOLD :: rat where
  "RESHUFFLE_THRESHOLD = 1 / 4"

text \<open>class \<^verbatim>\<open>Deck\<close>.\<close>

record deck =
  num_decks :: int
  cards :: "card list"
  reshuffle_point :: int

text \<open>
  The strings that \<^verbatim>\<open>process_showdown\<close> formats, one constructor per format string,
  with the values it interpolates.
\<close>

datatype message_part =
    YouBusted int rat
  | DealerBusts int rat
  | PushBothBlackjack
  | BlackjackWin rat
  | DealerBlackjack rat
  | YouWin int int rat
  | YouLose int int rat
  | PushScore int
  | OutOfMoney
  | BankruptedCasino

datatype game_state = HOME | BETTING | PLAYER_TURN | DEALER_TURN | SHOWDOWN | GAME_OVER

text \<open>
  \<^verbatim>\<open>st.session_state\<close>, with the fields \<^verbatim>\<open>initialize_game\<close> gives it. The message is
  the list of the parts appended to it (empty for the empty string). The field \<open>rng\<close> is
  not in the source: it is the state of the module \<^verbatim>\<open>random\<close>, the number of shuffles
  done so far.
\<close>

record session =
  game_state :: game_state
  player_money :: rat
  dealer_money :: rat
  deck :: deck
  player_hand :: hand
  dealer_hand :: hand
  bet :: rat
  message :: "message_part list"
  round_over :: bool
  show_dealer_card :: bool
  player_busted :: bool
  dealer_busted :: bool
  player_blackjack :: bool
  dealer_blackjack :: bool
  reshuffled_message :: string
  rng :: nat

text \<open>
  \<^verbatim>\<open>random.shuffle\<close> is a parameter of the model: \<open>rnd k xs\<close> is the order the \<open>k\<close>-th
  shuffle of the run leaves \<open>xs\<close> in. All that is known of it is that it permutes.
\<close>

type_synonym shuffler = "nat \<Rightarrow> card list \<Rightarrow> card list"

definition permutes_cards :: "shuffler \<Rightarrow> bool" where
  "permutes_cards rnd = (\<forall>k xs. mset (rnd k xs) = mset xs)"

definition build_cards :: "int \<Rightarrow> card list" where
  "build_cards n = concat (replicate (nat n) (concat (map (\<lambda>s. map (Card s) RANKS) SUITS)))"

definition build_and_shuffle :: "shuffler \<Rightarrow> session \<Rightarrow> session" where
  "build_and_shuffle rnd s =
     s\<lparr>deck := (deck s)\<lparr>cards := rnd (rng s) (build_cards (num_decks (deck s)))\<rparr>,
       rng := Suc (rng s),
       reshuffled_message := ''Deck reshuffled!''\<rparr>"

text \<open>\<^verbatim>\<open>Deck.__init__\<close>, assigned to \<^verbatim>\<open>st.session_state.deck\<close>.\<close>

definition Deck :: "shuffler \<Rightarrow> int \<Rightarrow> session \<Rightarrow> session" where
  "Deck rnd n s =
     build_and_shuffle rnd
       (s\<lparr>deck := \<lparr>num_decks = n, cards = [],
                    reshuffle_point = \<lfloor>52 * of_int n * RESHUFFLE_THRESHOLD\<rfloor>\<rparr>\<rparr>)"

definition needs_reshuffle :: "deck \<Rightarrow> bool" where
  "needs_reshuffle d = (int (length (cards d)) \<le> reshuffle_point d)"

text \<open>
  \<^verbatim>\<open>Deck.deal\<close> on the deck of the session: the card, or \<^verbatim>\<open>None\<close> when the deck is
  empty even after the reshuffle, and the session after it.
\<close>

definition deal :: "shuffler \<Rightarrow> session \<Rightarrow> card option \<times> session" where
  "deal rnd s =
     (let s1 = (if needs_reshuffle (deck s) then build_and_shuffle rnd s else s) in
      if cards (deck s1) = [] then (None, s1)
      else (Some (last (cards (deck s1))),
            s1\<lparr>deck := (deck s1)\<lparr>cards := butlast (cards (deck s1))\<rparr>\<rparr>))"

text \<open>What \<^verbatim>\<open>Deck.__init__\<close> establishes, for a deck of at least one pack.\<close>

definition deck_ok :: "deck \<Rightarrow> bool" where
  "deck_ok d =
     (1 \<le> num_decks d
      \<and> reshuffle_point d = \<lfloor>52 * of_int (num_decks d) * RESHUFFLE_THRESHOLD\<rfloor>)"

section \<open>The round\<close>

datatype error = InvalidBet | IndexError

text \<open>One pass of the dealing loop: a card to the player, then a card to the dealer.\<close>

definition deal_pair :: "shuffler \<Rightarrow> session \<Rightarrow> session" where
  "deal_pair rnd s =
     (case deal rnd s of (c1, s1) \<Rightarrow>
        (let s2 = s1\<lparr>player_hand := add_card (player_hand s1) c1\<rparr> in
         case deal rnd s2 of (c2, s3) \<Rightarrow>
           s3\<lparr>dealer_hand := add_card (dealer_hand s3) c2\<rparr>))"


definition place_bet :: "shuffler \<Rightarrow> rat \<Rightarrow> session \<Rightarrow> error option \<times> session" where
  "place_bet rnd bet_amount s =
     (let max_bet = player_money s in
      if 1 / 100 \<le> bet_amount \<and> bet_amount \<le> max_bet then
        (let s1 = s\<lparr>bet := bet_amount, game_state := PLAYER_TURN, message := [],
                     round_over := False, show_dealer_card := False,
                     player_busted := False, dealer_busted := False,
                     player_blackjack := False, dealer_blackjack := False\<rparr>;
             s2 = (if needs_reshuffle (deck s1) then build_and_shuffle rnd s1
                   else s1\<lparr>reshuffled_message := []\<rparr>);
             s3 = s2\<lparr>player_hand := [], dealer_hand := []\<rparr>;
             s4 = deal_pair rnd (deal_pair rnd s3);
             player_value = calculate_hand_value (player_hand s4);
             dealer_value = calculate_hand_value (dealer_hand s4);
             s5 = s4\<lparr>player_blackjack := (player_value = 21),
                      dealer_blackjack := (dealer_value = 21)\<rparr>
         in (None, if player_blackjack s5 \<or> dealer_blackjack s5
                   then s5\<lparr>game_state := DEALER_TURN\<rparr> else s5))
      else (Some InvalidBet, s))"

definition display_betting_screen ::
    "shuffler \<Rightarrow> rat \<Rightarrow> session \<Rightarrow> error option \<times> session" where
  "display_betting_screen rnd bet_amount s =
     (let max_bet = player_money s in
      if max_bet \<le> 0 then (None, s\<lparr>game_state := GAME_OVER\<rparr>)
      else place_bet rnd bet_amount s)"

text \<open>
  The buttons of \<^verbatim>\<open>display_game_state_ui\<close>. They are drawn in state
  \<^verbatim>\<open>PLAYER_TURN\<close> only, and \<^verbatim>\<open>Double Down\<close> only when \<^verbatim>\<open>can_double_down\<close> holds:
  \<open>None\<close> is the button that is not there.
\<close>

definition hit :: "shuffler \<Rightarrow> session \<Rightarrow> session option" where
  "hit rnd s =
     (if game_state s = PLAYER_TURN then
        (case deal rnd s of (c, s1) \<Rightarrow>
           (let s2 = s1\<lparr>player_hand := add_card (player_hand s1) c\<rparr>;
                player_value = calculate_hand_value (player_hand s2)
            in Some (if player_value > 21
                     then s2\<lparr>player_busted := True, game_state := SHOWDOWN\<rparr>
                     else s2)))
      else None)"

definition stand :: "session \<Rightarrow> session option" where
  "stand s =
     (if game_state s = PLAYER_TURN then Some (s\<lparr>game_state := DEALER_TURN\<rparr>) else None)"

definition can_double_down :: "session \<Rightarrow> bool" where
  "can_double_down s = (length (player_hand s) = 2 \<and> player_money s \<ge> bet s)"

definition double_down :: "shuffler \<Rightarrow> session \<Rightarrow> session option" where
  "double_down rnd s =
     (if game_state s = PLAYER_TURN \<and> can_double_down s then
        (let s1 = s\<lparr>player_money := player_money s - bet s\<rparr>;
             s2 = s1\<lparr>bet := bet s1 * 2\<rparr>
         in case deal rnd s2 of (c, s3) \<Rightarrow>
           (let s4 = s3\<lparr>player_hand := add_card (player_hand s3) c\<rparr>;
                player_value = calculate_hand_value (player_hand s4)
            in Some (if player_value > 21
                     then s4\<lparr>player_busted := True, game_state := SHOWDOWN\<rparr>
                     else s4\<lparr>game_state := DEALER_TURN\<rparr>)))
      else None)"

text \<open>
  The \<^verbatim>\<open>while\<close> loop of \<^verbatim>\<open>process_dealer_turn\<close>. Nothing in the loop itself bounds
  it, so it is a partial function: \<open>None\<close> is the loop that never ends.
\<close>

partial_function (option) dealer_loop :: "shuffler \<Rightarrow> session \<Rightarrow> session option" where
  "dealer_loop rnd s =
     (if calculate_hand_value (dealer_hand s) < 17 then
        (case deal rnd s of (c, s1) \<Rightarrow>
           dealer_loop rnd (s1\<lparr>dealer_hand := add_card (dealer_hand s1) c\<rparr>))
      else Some s)"

definition process_dealer_turn :: "shuffler \<Rightarrow> session \<Rightarrow> session option" where
  "process_dealer_turn rnd s =
     (let s1 = s\<lparr>show_dealer_card := True\<rparr> in
      if \<not> player_busted s1 then
        (case dealer_loop rnd s1 of
           None \<Rightarrow> None
         | Some s2 \<Rightarrow>
             Some ((if calculate_hand_value (dealer_hand s2) > 21
                    then s2\<lparr>dealer_busted := True\<rparr> else s2)\<lparr>game_state := SHOWDOWN\<rparr>))
      else Some (s1\<lparr>game_state := SHOWDOWN\<rparr>))"

text \<open>
  \<^verbatim>\<open>process_showdown\<close>: the branches that determine the outcome (\<open>settle\<close>), then the
  update of the display state and the game over checks.
\<close>

definition settle :: "session \<Rightarrow> session" where
  "settle s =
     (let player_value = calculate_hand_value (player_hand s);
          dealer_value = calculate_hand_value (dealer_hand s);
          bet = bet s
      in
      if player_busted s then
        s\<lparr>message := [YouBusted player_value bet],
          player_money := player_money s - bet,
          dealer_money := dealer_money s + bet\<rparr>
      else if dealer_busted s then
        s\<lparr>message := [DealerBusts dealer_value bet],
          player_money := player_money s + bet,
          dealer_money := dealer_money s - bet\<rparr>
      else if player_blackjack s then
        (if dealer_blackjack s then
           s\<lparr>message := [PushBothBlackjack]\<rparr>
         else
           (let win_amount = bet * (3 / 2) in
            s\<lparr>message := [BlackjackWin win_amount],
              player_money := player_money s + win_amount,
              dealer_money := dealer_money s - win_amount\<rparr>))
      else if dealer_blackjack s then
        s\<lparr>message := [DealerBlackjack bet],
          player_money := player_money s - bet,
          dealer_money := dealer_money s + bet\<rparr>
      else if player_value > dealer_value then
        s\<lparr>message := [YouWin player_value dealer_value bet],
          player_money := player_money s + bet,
          dealer_money := dealer_money s - bet\<rparr>
      else if dealer_value > player_value then
        s\<lparr>message := [YouLose dealer_value player_value bet],
          player_money := player_money s - bet,
          dealer_money := dealer_money s + bet\<rparr>
      else
        s\<lparr>message := [PushScore player_value]\<rparr>)"

definition process_showdown :: "session \<Rightarrow> session" where
  "process_showdown s =
     (let s1 = (settle s)\<lparr>round_over := True, show_dealer_card := True\<rparr> in
      if player_money s1 \<le> 0 then
        s1\<lparr>game_state := GAME_OVER, message := message s1 @ [OutOfMoney]\<rparr>
      else if dealer_money s1 \<le> 0 then
        s1\<lparr>game_state := GAME_OVER, message := message s1 @ [BankruptedCasino]\<rparr>
      else s1)"

text \<open>The fields that dealing a card leaves alone.\<close>

definition same_table :: "session \<Rightarrow> session \<Rightarrow> bool" where
  "same_table s s' =
     (game_state s' = game_state s \<and> player_money s' = player_money s
      \<and> dealer_money s' = dealer_money s \<and> bet s' = bet s
      \<and> player_hand s' = player_hand s \<and> message s' = message s
      \<and> round_over s' = round_over s \<and> show_dealer_card s' = show_dealer_card s
      \<and> player_busted s' = player_busted s \<and> dealer_busted s' = dealer_busted s
      \<and> player_blackjack s' = player_blackjack s \<and> dealer_blackjack s' = dealer_blackjack s
      \<and> num_decks (deck s') = num_decks (deck s))"

text \<open>
  The cards that \<open>n\<close> calls of \<^verbatim>\<open>deal\<close> in a row return, the first call first.
\<close>

fun deals :: "shuffler \<Rightarrow> nat \<Rightarrow> session \<Rightarrow> card option list" where
  "deals rnd 0 s = []"
| "deals rnd (Suc n) s = (case deal rnd s of (c, s') \<Rightarrow> c # deals rnd n s')"

section \<open>The round as a whole\<close>

text \<open>
  The sessions a round passes through: an accepted bet on a shoe of at least one pack,
  then the buttons of the player's turn and the dealer's turn, as the router of the main
  script calls them.
\<close>

inductive in_round :: "shuffler \<Rightarrow> session \<Rightarrow> bool" for rnd :: shuffler where
  bet: "deck_ok (deck s0) \<Longrightarrow> 0 < player_money s0 \<Longrightarrow>
        display_betting_screen rnd amount s0 = (None, s) \<Longrightarrow> in_round rnd s"
| hit: "in_round rnd s \<Longrightarrow> hit rnd s = Some s' \<Longrightarrow> in_round rnd s'"
| stand: "in_round rnd s \<Longrightarrow> stand s = Some s' \<Longrightarrow> in_round rnd s'"
| double_down: "in_round rnd s \<Longrightarrow> double_down rnd s = Some s' \<Longrightarrow> in_round rnd s'"
| dealer: "in_round rnd s \<Longrightarrow> game_state s = DEALER_TURN \<Longrightarrow>
        process_dealer_turn rnd s = Some s' \<Longrightarrow> in_round rnd s'"

text \<open>
  The flags of the session say what their names say of the hands; and what holds of the
  session in each state of a round.
\<close>

definition flags_ok :: "session \<Rightarrow> bool" where
  "flags_ok s =
     ((player_busted s \<longleftrightarrow> 21 < calculate_hand_value (player_hand s))
      \<and> (dealer_busted s \<longleftrightarrow> 21 < calculate_hand_value (dealer_hand s))
      \<and> (player_blackjack s \<longleftrightarrow>
           length (player_hand s) = 2 \<and> calculate_hand_value (player_hand s) = 21)
      \<and> (dealer_blackjack s \<longleftrightarrow>
           length (dealer_hand s) = 2 \<and> calculate_hand_value (dealer_hand s) = 21))"

definition round_inv :: "session \<Rightarrow> bool" where
  "round_inv s =
     (deck_ok (deck s)
      \<and> (case game_state s of
           PLAYER_TURN \<Rightarrow>
             \<not> player_blackjack s \<and> \<not> dealer_blackjack s
             \<and> \<not> player_busted s \<and> \<not> dealer_busted s
             \<and> length (dealer_hand s) = 2 \<and> 2 \<le> length (player_hand s)
             \<and> calculate_hand_value (player_hand s) \<le> 21
             \<and> calculate_hand_value (dealer_hand s) \<noteq> 21
             \<and> \<not> (length (player_hand s) = 2 \<and> calculate_hand_value (player_hand s) = 21)
         | DEALER_TURN \<Rightarrow>
             \<not> player_busted s \<and> \<not> dealer_busted s
             \<and> length (dealer_hand s) = 2
             \<and> calculate_hand_value (player_hand s) \<le> 21
             \<and> (player_blackjack s \<longleftrightarrow>
                  length (player_hand s) = 2 \<and> calculate_hand_value (player_hand s) = 21)
             \<and> (dealer_blackjack s \<longleftrightarrow> calculate_hand_value (dealer_hand s) = 21)
         | SHOWDOWN \<Rightarrow> flags_ok s
         | _ \<Rightarrow> False))"

section \<open>The settlement as the specification words it\<close>

text \<open>
  The outcomes of the specification's \<^verbatim>\<open>resolve()\<close>, its priority order (the first
  condition that holds decides) and its table of balance deltas, for the player and for
  the dealer. The busts and the blackjacks are the flags of the session.
\<close>

datatype Outcome =
    PlayerBust | DealerBust | Push_bothBlackjack | PlayerBlackjack | DealerBlackjackWin
  | PlayerWin | DealerWin | Push_tie

fun first_match :: "(bool \<times> 'a) list \<Rightarrow> 'a option" where
  "first_match [] = None"
| "first_match ((b, x) # rest) = (if b then Some x else first_match rest)"

definition resolve :: "session \<Rightarrow> Outcome option" where
  "resolve s =
     first_match
       [(player_busted s, PlayerBust),
        (dealer_busted s, DealerBust),
        (player_blackjack s \<and> dealer_blackjack s, Push_bothBlackjack),
        (player_blackjack s, PlayerBlackjack),
        (dealer_blackjack s, DealerBlackjackWin),
        (calculate_hand_value (player_hand s) > calculate_hand_value (dealer_hand s), PlayerWin),
        (calculate_hand_value (dealer_hand s) > calculate_hand_value (player_hand s), DealerWin),
        (calculate_hand_value (player_hand s) = calculate_hand_value (dealer_hand s), Push_tie)]"

fun delta :: "Outcome \<Rightarrow> rat \<Rightarrow> rat \<times> rat" where
  "delta PlayerBust b = (- b, b)"
| "delta DealerWin b = (- b, b)"
| "delta DealerBlackjackWin b = (- b, b)"
| "delta DealerBust b = (b, - b)"
| "delta PlayerWin b = (b, - b)"
| "delta PlayerBlackjack b = (3 / 2 * b, - (3 / 2 * b))"
| "delta Push_bothBlackjack b = (0, 0)"
| "delta Push_tie b = (0, 0)"

text \<open>The outcome a message of \<^verbatim>\<open>process_showdown\<close> announces.\<close>

fun outcome_of :: "message_part \<Rightarrow> Outcome option" where
  "outcome_of (YouBusted v b) = Some PlayerBust"
| "outcome_of (DealerBusts v b) = Some DealerBust"
| "outcome_of PushBothBlackjack = Some Push_bothBlackjack"
| "outcome_of (BlackjackWin w) = Some PlayerBlackjack"
| "outcome_of (DealerBlackjack b) = Some DealerBlackjackWin"
| "outcome_of (YouWin p d b) = Some PlayerWin"
| "outcome_of (YouLose d p b) = Some DealerWin"
| "outcome_of (PushScore v) = Some Push_tie"
| "outcome_of OutOfMoney = None"
| "outcome_of BankruptedCasino = None"

text \<open>
  The same priority order read off the hands, with \<^verbatim>\<open>isBust\<close> and \<^verbatim>\<open>isBlackjack\<close> as
  the specification defines them.
\<close>

definition isBlackjack :: "hand \<Rightarrow> bool" where
  "isBlackjack h = (length h = 2 \<and> calculate_hand_value h = 21)"

definition isBust :: "hand \<Rightarrow> bool" where
  "isBust h = (calculate_hand_value h > 21)"

definition resolve_hands :: "hand \<Rightarrow> hand \<Rightarrow> Outcome option" where
  "resolve_hands p d =
     first_match
       [(isBust p, PlayerBust),
        (isBust d, DealerBust),
        (isBlackjack p \<and> isBlackjack d, Push_bothBlackjack),
        (isBlackjack p, PlayerBlackjack),
        (isBlackjack d, DealerBlackjackWin),
        (calculate_hand_value p > calculate_hand_value d, PlayerWin),
        (calculate_hand_value d > calculate_hand_value p, DealerWin),
        (calculate_hand_value p = calculate_hand_value d, Push_tie)]"

section \<open>The single-deck script\<close>

text \<open>
  \<^verbatim>\<open>st.session_state\<close> of \<^verbatim>\<open>BJC.py\<close>. A card is a pair of suit and rank, the deck a
  list of 52 of them, rebuilt and shuffled at \<^verbatim>\<open>Play\<close> and \<^verbatim>\<open>Play Again\<close>.
\<close>

datatype game_phase = start | betting | player_turn | dealer_turn | result | quit

record script =
  game_phase :: game_phase
  script_player_money :: rat
  script_dealer_money :: rat
  script_deck :: "(suit \<times> rank) list"
  script_player_hand :: "(suit \<times> rank) list"
  script_dealer_hand :: "(suit \<times> rank) list"
  script_bet :: rat
  script_message :: string

definition build_pairs :: "(suit \<times> rank) list" where
  "build_pairs = concat (map (\<lambda>s. map (Pair s) RANKS) SUITS)"

text \<open>\<^verbatim>\<open>list.pop()\<close>: the last element and the list without it; \<open>None\<close> on the empty list.\<close>

definition pop :: "'a list \<Rightarrow> ('a \<times> 'a list) option" where
  "pop xs = (if xs = [] then None else Some (last xs, butlast xs))"

text \<open>The values that \<open>n\<close> calls of \<^verbatim>\<open>pop\<close> in a row return, in the order of the calls.\<close>

fun pops :: "nat \<Rightarrow> 'a list \<Rightarrow> 'a list" where
  "pops 0 xs = []"
| "pops (Suc n) xs = (case pop xs of None \<Rightarrow> [] | Some (c, r) \<Rightarrow> c # pops n r)"

text \<open>
  The button \<^verbatim>\<open>Place Bet\<close> of the phase \<^verbatim>\<open>betting\<close>, with the value of the number
  input (\<^verbatim>\<open>min_value=0.01\<close>, no \<^verbatim>\<open>max_value\<close>). The two lists are built one after the
  other, each from two pops; a pop of the empty list raises \<^verbatim>\<open>IndexError\<close> and leaves
  what was assigned and popped before it.
\<close>

definition place_bet_script :: "rat \<Rightarrow> script \<Rightarrow> error option \<times> script" where
  "place_bet_script amount t =
     (if amount > script_player_money t then (Some InvalidBet, t)
      else
        (let t0 = t\<lparr>script_bet := amount\<rparr> in
         case pop (script_deck t0) of
           None \<Rightarrow> (Some IndexError, t0)
         | Some (c1, d1) \<Rightarrow>
         (case pop d1 of
           None \<Rightarrow> (Some IndexError, t0\<lparr>script_deck := d1\<rparr>)
         | Some (c2, d2) \<Rightarrow>
         (let t1 = t0\<lparr>script_deck := d2, script_player_hand := [c1, c2]\<rparr> in
          case pop d2 of
            None \<Rightarrow> (Some IndexError, t1)
          | Some (c3, d3) \<Rightarrow>
          (case pop d3 of
            None \<Rightarrow> (Some IndexError, t1\<lparr>script_deck := d3\<rparr>)
          | Some (c4, d4) \<Rightarrow>
              (None, t1\<lparr>script_deck := d4, script_dealer_hand := [c3, c4],
                         game_phase := player_turn\<rparr>))))))"

text \<open>
  The branches of the phase \<^verbatim>\<open>result\<close> that determine the winner, in one run of the
  script. The script has no flags: it reads the busts off the hand values, and it has no
  blackjack branch. Nothing guards the block, so the script goes through it at every run
  in that phase, the run that the click on \<^verbatim>\<open>Play Again\<close> causes included.
\<close>

definition result_phase :: "script \<Rightarrow> script" where
  "result_phase t =
     (let player_value = calculate_hand_value_pairs (script_player_hand t);
          dealer_value = calculate_hand_value_pairs (script_dealer_hand t)
      in
      if player_value > 21 then
        t\<lparr>script_message := ''You busted! You lose.'',
          script_dealer_money := script_dealer_money t + script_bet t,
          script_player_money := script_player_money t - script_bet t\<rparr>
      else if dealer_value > 21 then
        t\<lparr>script_message := ''Dealer busted! You win.'',
          script_player_money := script_player_money t + script_bet t,
          script_dealer_money := script_dealer_money t - script_bet t\<rparr>
      else if player_value > dealer_value then
        t\<lparr>script_message := ''You win!'',
          script_player_money := script_player_money t + script_bet t,
          script_dealer_money := script_dealer_money t - script_bet t\<rparr>
      else if dealer_value > player_value then
        t\<lparr>script_message := ''You lose!'',
          script_dealer_money := script_dealer_money t + script_bet t,
          script_player_money := script_player_money t - script_bet t\<rparr>
      else
        t\<lparr>script_message := ''Push!''\<rparr>)"

text \<open>
  One run of the script in the phase \<^verbatim>\<open>result\<close>: the block above, the two checks that
  end the game with \<^verbatim>\<open>st.stop()\<close>, and the button \<^verbatim>\<open>Play Again\<close>, which reports its
  click in the run that the click causes. \<open>shuffle\<close> stands for \<^verbatim>\<open>random.shuffle\<close>.
\<close>

definition result_run ::
    "((suit \<times> rank) list \<Rightarrow> (suit \<times> rank) list) \<Rightarrow> bool \<Rightarrow> script \<Rightarrow> script" where
  "result_run shuffle play_again t =
     (let t1 = result_phase t in
      if script_player_money t1 \<le> 0 then t1
      else if script_dealer_money t1 \<le> 0 then t1
      else if play_again then
        t1\<lparr>game_phase := betting, script_deck := shuffle build_pairs,
           script_player_hand := [], script_dealer_hand := [], script_bet := 0\<rparr>
      else t1)"

text \<open>
  The cases of the result phase as a priority order, the outcome a message of the script
  announces, and a session of the script for the examples.
\<close>

definition resolve_script :: "script \<Rightarrow> Outcome option" where
  "resolve_script t =
     (let player_value = calculate_hand_value_pairs (script_player_hand t);
          dealer_value = calculate_hand_value_pairs (script_dealer_hand t)
      in first_match
       [(player_value > 21, PlayerBust),
        (dealer_value > 21, DealerBust),
        (player_value > dealer_value, PlayerWin),
        (dealer_value > player_value, DealerWin),
        (player_value = dealer_value, Push_tie)])"

definition outcome_of_text :: "string \<Rightarrow> Outcome option" where
  "outcome_of_text m =
     (if m = ''You busted! You lose.'' then Some PlayerBust
      else if m = ''Dealer busted! You win.'' then Some DealerBust
      else if m = ''You win!'' then Some PlayerWin
      else if m = ''You lose!'' then Some DealerWin
      else if m = ''Push!'' then Some Push_tie
      else None)"

definition script_table ::
    "game_phase \<Rightarrow> rat \<Rightarrow> rat \<Rightarrow> (suit \<times> rank) list \<Rightarrow> (suit \<times> rank) list
       \<Rightarrow> (suit \<times> rank) list \<Rightarrow> script" where
  "script_table phase money b ph dh d =
     \<lparr>game_phase = phase, script_player_money = money, script_dealer_money = 5000000,
      script_deck = d, script_player_hand = ph, script_dealer_hand = dh, script_bet = b,
      script_message = []\<rparr>"

section \<open>Example tables\<close>

text \<open>
  A four-deck shoe of which one whole pack and the cards \<open>pile\<close> remain, \<open>pile\<close> lying
  on the pack in the order in which they will be dealt; and a session around it.
\<close>

definition shoe :: "card list \<Rightarrow> deck" where
  "shoe pile =
     \<lparr>num_decks = NUM_DECKS, cards = build_cards 1 @ rev pile, reshuffle_point = 52\<rparr>"

definition table ::
    "game_state \<Rightarrow> rat \<Rightarrow> rat \<Rightarrow> hand \<Rightarrow> hand \<Rightarrow> card list \<Rightarrow> session" where
  "table st money b ph dh pile =
     \<lparr>game_state = st, player_money = money, dealer_money = 5000000, deck = shoe pile,
      player_hand = ph, dealer_hand = dh, bet = b, message = [], round_over = False,
      show_dealer_card = False, player_busted = False, dealer_busted = False,
      player_blackjack = False, dealer_blackjack = False, reshuffled_message = [],
      rng = 0\<rparr>"

text \<open>
  A round on such a table: the player is dealt the Ace and the King, the dealer 9 and 8;
  the bet is 10. The dealer stands on 17.
\<close>

definition blackjack_round :: session where
  "blackjack_round =
     the (process_dealer_turn (\<lambda>k. rev)
       (snd (display_betting_screen (\<lambda>k. rev) 10
         (table BETTING 500 0 [] []
            [Card Spades A, Card Clubs R9, Card Hearts K, Card Diamonds R8]))))"

section \<open>Hand valuation\<close>

lemma adjust_aces_stop: "val \<le> 21 \<or> aces = 0 \<Longrightarrow> adjust_aces val aces = val"
  by (subst adjust_aces.simps) auto

lemma adjust_aces_step:
  "val > 21 \<Longrightarrow> aces > 0 \<Longrightarrow> adjust_aces val aces = adjust_aces (val - 10) (aces - 1)"
  by (subst adjust_aces.simps) simp

lemma count_cards_eq:
  "count_cards h val aces = (val + base_total h, aces + num_aces h)"
  by (induction h arbitrary: val aces) (simp_all add: base_total_def num_aces_def)

lemma count_pairs_eq:
  "count_pairs h val aces = count_cards (map (\<lambda>(s, r). Card s r) h) val aces"
  by (induction h arbitrary: val aces) (auto simp: card_value_def Let_def)

lemma calculate_hand_value_pairs_eq:
  "calculate_hand_value_pairs h = calculate_hand_value (map (\<lambda>(s, r). Card s r) h)"
  by (cases h)
    (simp_all add: calculate_hand_value_pairs_def calculate_hand_value_def count_pairs_eq
      adjust_aces_stop)

lemma calculate_hand_value_adjust:
  "calculate_hand_value h = adjust_aces (base_total h) (num_aces h)"
  by (cases h)
    (simp_all add: calculate_hand_value_def count_cards_eq adjust_aces_stop base_total_def
      num_aces_def)

text \<open>
  What the \<^verbatim>\<open>while\<close> loop computes: it takes 10 off \<open>k\<close> times, for a \<open>k\<close> that is at
  most the number of Aces, every step is taken above 21, and it stops before the Aces
  run out only at 21 or below.
\<close>

lemma adjust_aces_spec:
  "\<exists>k\<le>aces. adjust_aces val aces = val - 10 * int k
     \<and> (\<forall>j<k. val - 10 * int j > 21)
     \<and> (k < aces \<longrightarrow> val - 10 * int k \<le> 21)"
proof (induction val aces rule: adjust_aces.induct)
  case (1 val aces)
  show ?case
  proof (cases "val > 21 \<and> aces > 0")
    case False
    then have "adjust_aces val aces = val"
      by (intro adjust_aces_stop) auto
    with False show ?thesis
      by (intro exI [of _ 0]) auto
  next
    case True
    from "1.IH" [OF True] obtain k where k: "k \<le> aces - 1"
      "adjust_aces (val - 10) (aces - 1) = val - 10 - 10 * int k"
      "\<forall>j<k. val - 10 - 10 * int j > 21"
      "k < aces - 1 \<longrightarrow> val - 10 - 10 * int k \<le> 21"
      by blast
    have step: "adjust_aces val aces = adjust_aces (val - 10) (aces - 1)"
      using True by (simp add: adjust_aces_step)
    have "\<forall>j<Suc k. val - 10 * int j > 21"
    proof (intro allI impI)
      fix j assume "j < Suc k"
      show "val - 10 * int j > 21"
      proof (cases j)
        case 0
        with True show ?thesis by simp
      next
        case (Suc i)
        with \<open>j < Suc k\<close> k(3) have "val - 10 - 10 * int i > 21" by simp
        with Suc show ?thesis by simp
      qed
    qed
    moreover have "Suc k \<le> aces" using k(1) True by arith
    moreover have "adjust_aces val aces = val - 10 * int (Suc k)"
      using step k(2) by simp
    moreover have "Suc k < aces \<longrightarrow> val - 10 * int (Suc k) \<le> 21"
      using k(4) by auto
    ultimately show ?thesis by blast
  qed
qed

lemma adjust_aces_ge: "adjust_aces val aces \<ge> val - 10 * int aces"
proof -
  obtain k where "k \<le> aces" "adjust_aces val aces = val - 10 * int k"
    using adjust_aces_spec by blast
  then show ?thesis by simp
qed

lemma hard_total_le_value: "hard_total h \<le> calculate_hand_value h"
  by (simp add: hard_total_def calculate_hand_value_adjust adjust_aces_ge)

lemma base_total_mset: "mset h = mset h' \<Longrightarrow> base_total h = base_total h'"
proof -
  assume "mset h = mset h'"
  then have "sum_mset (image_mset card_value (mset h)) = sum_mset (image_mset card_value (mset h'))"
    by simp
  then show ?thesis
    by (simp add: base_total_def sum_mset_sum_list [symmetric])
qed

lemma num_aces_mset: "mset h = mset h' \<Longrightarrow> num_aces h = num_aces h'"
proof -
  assume "mset h = mset h'"
  then have "size (filter_mset (\<lambda>c. rank c = A) (mset h)) = size (filter_mset (\<lambda>c. rank c = A) (mset h'))"
    by simp
  then show ?thesis
    by (simp add: num_aces_def mset_filter [symmetric] del: mset_filter)
qed

text \<open>
  C2. The base values of the thirteen ranks are 2 to 10 for the number cards, 10 for J,
  Q and K and 11 for the Ace, in both scripts. The value of a hand is the sum of the base
  values of its cards, less 10 for each of \<open>k\<close> Aces, where the reductions
  happen one at a time, each only while the running total is above 21, and stop when the
  total is at most 21 or every Ace has been reduced. So each Ace counts either 11 or 1,
  never both: the value is the non-Ace cards plus 11 for each of the other Aces plus 1 for
  each of the \<open>k\<close> reduced ones. The hand A, A, 9 is worth 21 and the empty hand 0.
  The valuation of the single-deck script, on pairs of suit and rank, is the same function.
\<close>

theorem calculate_hand_value_soft_hard:
  "map (\<lambda>r. card_value (Card u r)) [R2, R3, R4, R5, R6, R7, R8, R9, R10, J, Q, K, A]
     = [2, 3, 4, 5, 6, 7, 8, 9, 10, 10, 10, 10, 11]
   \<and> map (\<lambda>r. calculate_hand_value_pairs [(u, r)]) [R2, R3, R4, R5, R6, R7, R8, R9, R10, J, Q, K, A]
     = [2, 3, 4, 5, 6, 7, 8, 9, 10, 10, 10, 10, 11]
   \<and> (\<forall>c. card_value c = (if rank c \<in> {J, Q, K} then 10 else if rank c = A then 11
        else int_of_rank (rank c)))
   \<and> (\<exists>k\<le>num_aces h.
        calculate_hand_value h = sum_list (map card_value h) - 10 * int k
      \<and> (\<forall>j<k. sum_list (map card_value h) - 10 * int j > 21)
      \<and> (k < num_aces h \<longrightarrow> calculate_hand_value h \<le> 21)
      \<and> calculate_hand_value h =
          sum_list (map card_value (filter (\<lambda>c. rank c \<noteq> A) h))
            + 11 * int (num_aces h - k) + 1 * int k)
   \<and> calculate_hand_value [Card s1 A, Card s2 A, Card s3 R9] = 21
   \<and> calculate_hand_value [] = 0
   \<and> calculate_hand_value_pairs ps = calculate_hand_value (map (\<lambda>(u, r). Card u r) ps)"
proof -
  obtain k where k: "k \<le> num_aces h"
    "adjust_aces (base_total h) (num_aces h) = base_total h - 10 * int k"
    "\<forall>j<k. base_total h - 10 * int j > 21"
    "k < num_aces h \<longrightarrow> base_total h - 10 * int k \<le> 21"
    using adjust_aces_spec by blast
  have split: "base_total h =
      sum_list (map card_value (filter (\<lambda>c. rank c \<noteq> A) h)) + 11 * int (num_aces h)"
    by (induction h) (simp_all add: base_total_def num_aces_def card_value_def)
  have "calculate_hand_value h =
      sum_list (map card_value (filter (\<lambda>c. rank c \<noteq> A) h))
        + 11 * int (num_aces h - k) + 1 * int k"
    using k(1,2) split by (simp add: calculate_hand_value_adjust)
  with k have main: "\<exists>k\<le>num_aces h.
        calculate_hand_value h = sum_list (map card_value h) - 10 * int k
      \<and> (\<forall>j<k. sum_list (map card_value h) - 10 * int j > 21)
      \<and> (k < num_aces h \<longrightarrow> calculate_hand_value h \<le> 21)
      \<and> calculate_hand_value h =
          sum_list (map card_value (filter (\<lambda>c. rank c \<noteq> A) h))
            + 11 * int (num_aces h - k) + 1 * int k"
    unfolding calculate_hand_value_adjust base_total_def [symmetric]
    by (intro exI [of _ k]) simp
  have aa9: "calculate_hand_value [Card s1 A, Card s2 A, Card s3 R9] = 21"
    by (simp add: calculate_hand_value_def card_value_def adjust_aces_step adjust_aces_stop)
  have empty: "calculate_hand_value [] = 0"
    by (simp add: calculate_hand_value_def)
  have cv: "\<forall>c. card_value c = (if rank c \<in> {J, Q, K} then 10 else if rank c = A then 11
        else int_of_rank (rank c))"
    by (simp add: card_value_def)
  have face: "map (\<lambda>r. card_value (Card u r)) [R2, R3, R4, R5, R6, R7, R8, R9, R10, J, Q, K, A]
     = [2, 3, 4, 5, 6, 7, 8, 9, 10, 10, 10, 10, 11]"
    by (simp add: card_value_def)
  have face': "map (\<lambda>r. calculate_hand_value_pairs [(u, r)])
       [R2, R3, R4, R5, R6, R7, R8, R9, R10, J, Q, K, A]
     = [2, 3, 4, 5, 6, 7, 8, 9, 10, 10, 10, 10, 11]"
    by (simp add: calculate_hand_value_pairs_def adjust_aces_stop)
  from face face' cv main aa9 empty calculate_hand_value_pairs_eq [of ps] show ?thesis
    by (intro conjI)
qed

theorem calculate_hand_value_soft_hard_witness:
  "calculate_hand_value [Card Hearts A, Card Spades K, Card Clubs A] = 12
   \<and> num_aces [Card Hearts A, Card Spades K, Card Clubs A] = 2
   \<and> (\<exists>k\<le>2. (12::int) = 32 - 10 * int k \<and> (\<forall>j<k. (32::int) - 10 * int j > 21))"
proof -
  let ?h = "[Card Hearts A, Card Spades K, Card Clubs A]"
  have v: "calculate_hand_value ?h = 12"
    by (simp add: calculate_hand_value_def card_value_def adjust_aces_step adjust_aces_stop)
  have n: "num_aces ?h = 2"
    by (simp add: num_aces_def)
  have s: "sum_list (map card_value ?h) = 32"
    by (simp add: card_value_def)
  from calculate_hand_value_soft_hard [of _ ?h, THEN conjunct2, THEN conjunct2] obtain k where
    "k \<le> num_aces ?h" "calculate_hand_value ?h = sum_list (map card_value ?h) - 10 * int k"
    "\<forall>j<k. sum_list (map card_value ?h) - 10 * int j > 21"
    by blast
  then have "k \<le> 2 \<and> (12::int) = 32 - 10 * int k \<and> (\<forall>j<k. (32::int) - 10 * int j > 21)"
    unfolding v n s by simp
  with v n show ?thesis by blast
qed

lemma calculate_hand_value_perm:
  assumes "mset h = mset h'"
  shows "calculate_hand_value h = calculate_hand_value h'"
proof -
  have "base_total h = base_total h'" "num_aces h = num_aces h'"
    using assms by (rule base_total_mset, rule num_aces_mset)
  then show ?thesis
    by (simp only: calculate_hand_value_adjust)
qed

text \<open>
  C10. The value of a hand depends only on the multiset of its cards: two hands that are
  permutations of each other have the same value, in \<^verbatim>\<open>calculate_hand_value\<close> of the
  engine and in that of the single-deck script.
\<close>

theorem calculate_hand_value_mset:
  "(mset h = mset h' \<longrightarrow> calculate_hand_value h = calculate_hand_value h')
   \<and> (mset ps = mset ps' \<longrightarrow> calculate_hand_value_pairs ps = calculate_hand_value_pairs ps')"
proof (intro conjI impI)
  assume "mset h = mset h'"
  then show "calculate_hand_value h = calculate_hand_value h'"
    by (rule calculate_hand_value_perm)
next
  assume "mset ps = mset ps'"
  then have "mset (map (\<lambda>(u, r). Card u r) ps) = mset (map (\<lambda>(u, r). Card u r) ps')"
    by simp
  then show "calculate_hand_value_pairs ps = calculate_hand_value_pairs ps'"
    unfolding calculate_hand_value_pairs_eq by (rule calculate_hand_value_perm)
qed

theorem calculate_hand_value_mset_witness:
  "mset [Card Hearts A, Card Spades K, Card Clubs R5]
     = mset [Card Spades K, Card Clubs R5, Card Hearts A]
   \<and> calculate_hand_value [Card Hearts A, Card Spades K, Card Clubs R5] = 16
   \<and> calculate_hand_value [Card Spades K, Card Clubs R5, Card Hearts A] = 16
   \<and> mset [(Hearts, A), (Spades, K), (Clubs, R5)] = mset [(Spades, K), (Clubs, R5), (Hearts, A)]
   \<and> calculate_hand_value_pairs [(Hearts, A), (Spades, K), (Clubs, R5)] = 16
   \<and> calculate_hand_value_pairs [(Spades, K), (Clubs, R5), (Hearts, A)] = 16"
proof -
  have m: "mset [Card Hearts A, Card Spades K, Card Clubs R5]
      = mset [Card Spades K, Card Clubs R5, Card Hearts A]"
    by simp
  have m': "mset [(Hearts, A), (Spades, K), (Clubs, R5)]
      = mset [(Spades, K), (Clubs, R5), (Hearts, A)]"
    by simp
  have v: "calculate_hand_value [Card Hearts A, Card Spades K, Card Clubs R5] = 16"
    by (simp add: calculate_hand_value_def card_value_def adjust_aces_step adjust_aces_stop)
  have v': "calculate_hand_value_pairs [(Hearts, A), (Spades, K), (Clubs, R5)] = 16"
    by (simp add: calculate_hand_value_pairs_eq v)
  note th = calculate_hand_value_mset
    [of "[Card Hearts A, Card Spades K, Card Clubs R5]"
        "[Card Spades K, Card Clubs R5, Card Hearts A]"
        "[(Hearts, A), (Spades, K), (Clubs, R5)]" "[(Spades, K), (Clubs, R5), (Hearts, A)]"]
  from th [THEN conjunct1, rule_format, OF m] v
  have w: "calculate_hand_value [Card Spades K, Card Clubs R5, Card Hearts A] = 16"
    by simp
  from th [THEN conjunct2, rule_format, OF m'] v'
  have w': "calculate_hand_value_pairs [(Spades, K), (Clubs, R5), (Hearts, A)] = 16"
    by simp
  from m m' v v' w w' show ?thesis by blast
qed

lemma two_card_value:
  assumes "length h = 2"
  shows "calculate_hand_value h \<le> 21"
proof -
  from assms obtain a b where h: "h = [a, b]"
    by (cases h; cases "tl h") auto
  have v: "card_value c \<le> 11 \<and> (card_value c = 11 \<longleftrightarrow> rank c = A)" for c
    by (cases "rank c") (simp_all add: card_value_def)
  show ?thesis
  proof (cases "base_total h \<le> 21")
    case True
    then show ?thesis
      by (simp add: calculate_hand_value_adjust adjust_aces_stop)
  next
    case False
    with v [of a] v [of b] have "rank a = A" "rank b = A"
      by (auto simp: h base_total_def)
    then have "base_total h = 22" "num_aces h = 2"
      using v [of a] v [of b] by (simp_all add: h base_total_def num_aces_def)
    then show ?thesis
      by (simp add: calculate_hand_value_adjust adjust_aces_step adjust_aces_stop)
  qed
qed

section \<open>Dealing from the shoe\<close>

lemma length_build_cards: "length (build_cards n) = 52 * nat n"
proof -
  have r: "length (concat (replicate k xs)) = k * length xs" for k and xs :: "card list"
    by (induction k) simp_all
  show ?thesis
    by (simp add: build_cards_def r SUITS_def RANKS_def)
qed

lemma permutes_cards_length: "permutes_cards rnd \<Longrightarrow> length (rnd k xs) = length xs"
  unfolding permutes_cards_def by (metis size_mset)

lemma reshuffle_point_eq: "deck_ok d \<Longrightarrow> reshuffle_point d = 13 * num_decks d"
proof -
  assume "deck_ok d"
  then have "reshuffle_point d = \<lfloor>(of_int (13 * num_decks d) :: rat)\<rfloor>"
    by (simp add: deck_ok_def RESHUFFLE_THRESHOLD_def)
  then show ?thesis by (simp only: floor_of_int)
qed

lemma needs_reshuffle_threshold:
  "deck_ok d \<Longrightarrow>
     needs_reshuffle d \<longleftrightarrow>
       of_nat (length (cards d)) \<le> of_int (num_decks d) * 52 * RESHUFFLE_THRESHOLD"
proof -
  assume ok: "deck_ok d"
  have "(of_nat (length (cards d)) \<le> (of_int (num_decks d) * 52 * RESHUFFLE_THRESHOLD :: rat))
      \<longleftrightarrow> ((of_int (int (length (cards d))) :: rat) \<le> of_int (13 * num_decks d))"
    by (simp add: RESHUFFLE_THRESHOLD_def)
  also have "\<dots> \<longleftrightarrow> int (length (cards d)) \<le> 13 * num_decks d"
    by (simp only: of_int_le_iff)
  finally show ?thesis
    using ok by (simp add: needs_reshuffle_def reshuffle_point_eq)
qed

lemma build_and_shuffle_cards:
  "permutes_cards rnd \<Longrightarrow>
     length (cards (deck (build_and_shuffle rnd s))) = 52 * nat (num_decks (deck s))"
  by (simp add: build_and_shuffle_def permutes_cards_length length_build_cards)

lemma deal_reshuffle:
  assumes "needs_reshuffle (deck s)" "deck_ok (deck s)" "permutes_cards rnd"
  shows "deal rnd s =
     (Some (last (rnd (rng s) (build_cards (num_decks (deck s))))),
      s\<lparr>deck := (deck s)\<lparr>cards := butlast (rnd (rng s) (build_cards (num_decks (deck s))))\<rparr>,
        rng := Suc (rng s), reshuffled_message := ''Deck reshuffled!''\<rparr>)"
proof -
  have "length (cards (deck (build_and_shuffle rnd s))) = 52 * nat (num_decks (deck s))"
    using assms(3) by (rule build_and_shuffle_cards)
  moreover have "0 < nat (num_decks (deck s))"
    using assms(2) by (simp add: deck_ok_def)
  ultimately have "cards (deck (build_and_shuffle rnd s)) \<noteq> []"
    by auto
  then show ?thesis
    using assms(1) by (simp add: deal_def Let_def) (simp add: build_and_shuffle_def)
qed

lemma deal_plain:
  assumes "\<not> needs_reshuffle (deck s)" "deck_ok (deck s)"
  shows "deal rnd s =
     (Some (last (cards (deck s))), s\<lparr>deck := (deck s)\<lparr>cards := butlast (cards (deck s))\<rparr>\<rparr>)"
proof -
  have "0 \<le> reshuffle_point (deck s)"
    using assms(2) by (simp add: reshuffle_point_eq) (simp add: deck_ok_def)
  with assms(1) have "cards (deck s) \<noteq> []"
    by (auto simp: needs_reshuffle_def)
  then show ?thesis
    using assms(1) by (simp add: deal_def Let_def)
qed

lemma permutes_cards_rev: "permutes_cards (\<lambda>k. rev)"
  by (simp add: permutes_cards_def)

lemma deck_ok_shoe: "deck_ok (shoe pile)"
  by (simp add: deck_ok_def shoe_def NUM_DECKS_def RESHUFFLE_THRESHOLD_def)

lemma deck_ok_Deck: "1 \<le> n \<Longrightarrow> deck_ok (deck (Deck rnd n s))"
  by (simp add: Deck_def build_and_shuffle_def deck_ok_def)

lemma deck_table [simp]: "deck (table st money b ph dh pile) = shoe pile"
  by (simp add: table_def)

text \<open>
  C3. With a shoe of at least one pack, as \<^verbatim>\<open>Deck.__init__\<close> builds it, and a shuffle
  that permutes, \<^verbatim>\<open>deal\<close> always returns a card. When the shoe holds at most
  \<open>deckCount \<times> 52 \<times> RESHUFFLE_THRESHOLD\<close> cards (none included), the shoe is first rebuilt
  to \<open>deckCount \<times> 52\<close> cards and shuffled, and the card is the last of the rebuilt shoe;
  otherwise it is the last card of the shoe as it was. The shoe left behind is the one
  dealt from without its last card, and it is again a well-formed shoe.
\<close>

theorem deal_never_fails:
  assumes "deck_ok (deck s)" and "permutes_cards rnd"
  shows "\<exists>c s'. deal rnd s = (Some c, s') \<and> deck_ok (deck s')
     \<and> (if of_nat (length (cards (deck s))) \<le> of_int (num_decks (deck s)) * 52 * RESHUFFLE_THRESHOLD
        then (let fresh = rnd (rng s) (build_cards (num_decks (deck s))) in
              length (build_cards (num_decks (deck s))) = nat (num_decks (deck s) * 52)
              \<and> mset fresh = mset (build_cards (num_decks (deck s)))
              \<and> c = last fresh \<and> cards (deck s') = butlast fresh
              \<and> length (cards (deck s')) = nat (num_decks (deck s) * 52) - 1)
        else c = last (cards (deck s)) \<and> cards (deck s') = butlast (cards (deck s))
              \<and> length (cards (deck s')) = length (cards (deck s)) - 1)"
proof (cases "needs_reshuffle (deck s)")
  case True
  let ?fresh = "rnd (rng s) (build_cards (num_decks (deck s)))"
  have len: "length (build_cards (num_decks (deck s))) = nat (num_decks (deck s) * 52)"
    using assms(1) by (simp add: length_build_cards deck_ok_def nat_mult_distrib)
  have "mset ?fresh = mset (build_cards (num_decks (deck s)))"
    using assms(2) by (simp add: permutes_cards_def)
  moreover have "length ?fresh = nat (num_decks (deck s) * 52)"
    using assms(2) len by (simp add: permutes_cards_length)
  moreover have "of_nat (length (cards (deck s))) \<le> of_int (num_decks (deck s)) * 52 * RESHUFFLE_THRESHOLD"
    using True assms(1) by (simp only: needs_reshuffle_threshold)
  ultimately show ?thesis
    using deal_reshuffle [OF True assms] assms(1) len
    by (simp add: deck_ok_def Let_def)
next
  case False
  have "\<not> of_nat (length (cards (deck s))) \<le> of_int (num_decks (deck s)) * 52 * RESHUFFLE_THRESHOLD"
    using False assms(1) by (simp only: needs_reshuffle_threshold not_False_eq_True)
  then show ?thesis
    using deal_plain [OF False assms(1), of rnd] assms(1)
    by (simp add: deck_ok_def)
qed

theorem deal_never_fails_witness:
  "deck_ok (deck (table BETTING 500 0 [] [] []))
   \<and> permutes_cards (\<lambda>k. rev)
   \<and> needs_reshuffle (deck (table BETTING 500 0 [] [] []))
   \<and> (\<exists>c s'. deal (\<lambda>k. rev) (table BETTING 500 0 [] [] []) = (Some c, s')
        \<and> length (cards (deck s')) = 207)"
proof -
  let ?t = "table BETTING 500 0 [] [] []"
  have ok: "deck_ok (deck ?t)"
    by (simp add: deck_ok_shoe)
  have n: "needs_reshuffle (deck ?t)"
    by (simp add: needs_reshuffle_def shoe_def length_build_cards)
  have th: "rat_of_nat (length (cards (deck ?t)))
      \<le> rat_of_int (num_decks (deck ?t)) * 52 * RESHUFFLE_THRESHOLD"
    using n ok by (simp only: needs_reshuffle_threshold)
  have nd: "num_decks (deck ?t) = 4"
    by (simp add: shoe_def NUM_DECKS_def)
  from deal_never_fails [OF ok permutes_cards_rev]
  obtain c s' where "deal (\<lambda>k. rev) ?t = (Some c, s')"
    "length (cards (deck s')) = nat (num_decks (deck ?t) * 52) - 1"
    unfolding if_P [OF th] Let_def by blast
  then have "\<exists>c s'. deal (\<lambda>k. rev) ?t = (Some c, s') \<and> length (cards (deck s')) = 207"
    unfolding nd by simp
  with ok n permutes_cards_rev show ?thesis by blast
qed

section \<open>The dealer's turn\<close>

lemma deal_total:
  assumes "deck_ok (deck s)" and "permutes_cards rnd"
  obtains c s' where "deal rnd s = (Some c, s')" "deck_ok (deck s')" "same_table s s'"
    "dealer_hand s' = dealer_hand s"
proof (cases "needs_reshuffle (deck s)")
  case True
  show ?thesis
    by (rule that [OF deal_reshuffle [OF True assms]])
      (use assms(1) in \<open>simp_all add: deck_ok_def same_table_def\<close>)
next
  case False
  show ?thesis
    by (rule that [OF deal_plain [OF False assms(1)]])
      (use assms(1) in \<open>simp_all add: deck_ok_def same_table_def\<close>)
qed

lemma card_hard_value: "1 \<le> card_value c - (if rank c = A then 10 else 0)"
  by (cases c; cases "rank c") (simp_all add: card_value_def)

lemma hard_total_snoc: "hard_total h < hard_total (h @ [c])"
  using card_hard_value [of c]
  by (cases "rank c = A") (simp_all add: hard_total_def base_total_def num_aces_def)

lemma same_table_trans: "same_table s s1 \<Longrightarrow> same_table s1 s2 \<Longrightarrow> same_table s s2"
  by (simp add: same_table_def)

lemma dealer_loop_total:
  assumes "deck_ok (deck s)" and "permutes_cards rnd"
  shows "\<exists>s' drawn. dealer_loop rnd s = Some s'
     \<and> 17 \<le> calculate_hand_value (dealer_hand s')
     \<and> dealer_hand s' = dealer_hand s @ drawn
     \<and> (\<forall>n<length drawn. calculate_hand_value (dealer_hand s @ take n drawn) < 17)
     \<and> int (length drawn) \<le> max 0 (17 - hard_total (dealer_hand s))
     \<and> same_table s s' \<and> deck_ok (deck s')"
  using assms
proof (induction "nat (17 - hard_total (dealer_hand s))" arbitrary: s rule: less_induct)
  case less
  show ?case
  proof (cases "calculate_hand_value (dealer_hand s) < 17")
    case False
    then have "dealer_loop rnd s = Some s"
      by (subst dealer_loop.simps) simp
    with False less.prems show ?thesis
      by (intro exI [of _ s] exI [of _ "[]"]) (simp add: same_table_def)
  next
    case True
    from less.prems obtain c s1 where d: "deal rnd s = (Some c, s1)" "deck_ok (deck s1)"
      "same_table s s1" "dealer_hand s1 = dealer_hand s"
      by (rule deal_total)
    let ?s2 = "s1\<lparr>dealer_hand := add_card (dealer_hand s1) (Some c)\<rparr>"
    have hand2: "dealer_hand ?s2 = dealer_hand s @ [c]"
      using d(4) by simp
    have step: "dealer_loop rnd s = dealer_loop rnd ?s2"
      using True d(1) by (subst dealer_loop.simps) simp
    have lt17: "hard_total (dealer_hand s) < 17"
      using True hard_total_le_value [of "dealer_hand s"] by simp
    have grow: "hard_total (dealer_hand s) < hard_total (dealer_hand ?s2)"
      unfolding hand2 by (rule hard_total_snoc)
    have "nat (17 - hard_total (dealer_hand ?s2)) < nat (17 - hard_total (dealer_hand s))"
      using lt17 grow by simp
    moreover have "deck_ok (deck ?s2)" using d(2) by simp
    ultimately obtain s' drawn where r: "dealer_loop rnd ?s2 = Some s'"
      "17 \<le> calculate_hand_value (dealer_hand s')"
      "dealer_hand s' = dealer_hand ?s2 @ drawn"
      "\<forall>n<length drawn. calculate_hand_value (dealer_hand ?s2 @ take n drawn) < 17"
      "int (length drawn) \<le> max 0 (17 - hard_total (dealer_hand ?s2))"
      "same_table ?s2 s'" "deck_ok (deck s')"
      using less.hyps [of ?s2] less.prems(2) by blast
    have pre: "\<forall>n<length (c # drawn). calculate_hand_value (dealer_hand s @ take n (c # drawn)) < 17"
    proof (intro allI impI)
      fix n assume n: "n < length (c # drawn)"
      show "calculate_hand_value (dealer_hand s @ take n (c # drawn)) < 17"
      proof (cases n)
        case 0
        with True show ?thesis by simp
      next
        case (Suc m)
        with n r(4) have "calculate_hand_value (dealer_hand ?s2 @ take m drawn) < 17"
          by simp
        with Suc show ?thesis by (simp add: d(4))
      qed
    qed
    have len: "int (length (c # drawn)) \<le> max 0 (17 - hard_total (dealer_hand s))"
      using r(5) grow lt17 by simp
    have same: "same_table s s'"
      using d(3) r(6) by (simp add: same_table_def)
    have "dealer_hand s' = dealer_hand s @ (c # drawn)"
      using r(3) hand2 by simp
    with step r(1,2,7) pre len same show ?thesis
      by (intro exI [of _ s'] exI [of _ "c # drawn"]) simp
  qed
qed

lemma deal_frame:
  "deal rnd s = (c, s') \<Longrightarrow> same_table s s' \<and> dealer_hand s' = dealer_hand s"
  by (auto simp: deal_def Let_def build_and_shuffle_def same_table_def split: if_splits)

lemma deal_player_hand:
  "deal rnd (s\<lparr>player_hand := h\<rparr>)
     = (fst (deal rnd s), (snd (deal rnd s))\<lparr>player_hand := h\<rparr>)"
  by (simp add: deal_def Let_def build_and_shuffle_def)

lemma deal_dealer_hand:
  "deal rnd (s\<lparr>dealer_hand := h\<rparr>)
     = (fst (deal rnd s), (snd (deal rnd s))\<lparr>dealer_hand := h\<rparr>)"
  by (simp add: deal_def Let_def build_and_shuffle_def)

lemma deal_cong:
  assumes "deck s = deck t" and "rng s = rng t"
  shows "fst (deal rnd s) = fst (deal rnd t)
     \<and> deck (snd (deal rnd s)) = deck (snd (deal rnd t))
     \<and> rng (snd (deal rnd s)) = rng (snd (deal rnd t))"
  using assms by (simp add: deal_def Let_def build_and_shuffle_def)

lemma deals_cong:
  "deck s = deck t \<Longrightarrow> rng s = rng t \<Longrightarrow> deals rnd n s = deals rnd n t"
proof (induction n arbitrary: s t)
  case 0
  show ?case by simp
next
  case (Suc n)
  from deal_cong [OF Suc.prems, of rnd]
  have "fst (deal rnd s) = fst (deal rnd t)"
    "deals rnd n (snd (deal rnd s)) = deals rnd n (snd (deal rnd t))"
    by (auto intro: Suc.IH)
  then show ?case
    by (simp add: split_beta)
qed


lemma deal_pair_eq:
  assumes "deal rnd s = (c1, s1)" and "deal rnd s1 = (c2, s2)"
  shows "deal_pair rnd s
      = s2\<lparr>player_hand := add_card (player_hand s) c1,
           dealer_hand := add_card (dealer_hand s) c2\<rparr>"
proof -
  have "player_hand s1 = player_hand s" "dealer_hand s2 = dealer_hand s"
    using deal_frame [OF assms(1)] deal_frame [OF assms(2)] by (simp_all add: same_table_def)
  then show ?thesis
    by (simp add: deal_pair_def assms deal_player_hand Let_def)
qed

lemma deal_pair_frame:
  "bet (deal_pair rnd s) = bet s \<and> game_state (deal_pair rnd s) = game_state s
   \<and> player_money (deal_pair rnd s) = player_money s
   \<and> dealer_money (deal_pair rnd s) = dealer_money s"
proof -
  obtain c1 s1 where d1: "deal rnd s = (c1, s1)" by (cases "deal rnd s")
  obtain c2 s2 where d2: "deal rnd s1 = (c2, s2)" by (cases "deal rnd s1")
  show ?thesis
    using deal_frame [OF d1] deal_frame [OF d2]
    by (simp add: deal_pair_eq [OF d1 d2] same_table_def)
qed

lemma value17: "calculate_hand_value [Card Spades A, Card Hearts R6] = 17"
  by (simp add: calculate_hand_value_def card_value_def adjust_aces_stop)

text \<open>
  C6. The dealer draws exactly while the hand is worth less than 17, and stands on every
  17, a soft one included. In \<^verbatim>\<open>process_dealer_turn\<close>, when the player has not busted,
  with a shoe of at least one pack: the turn ends in \<^verbatim>\<open>SHOWDOWN\<close>; the dealer's hand
  is the old one followed by the cards drawn, one at a time; before each draw the hand was
  worth less than 17; a card is drawn if and only if the hand is worth less than 17 at the
  start; the final hand is worth at least 17; the dealer's bust is recorded when it is
  worth more than 21; the player's hand is untouched.
\<close>

theorem dealer_stands_on_17:
  assumes "deck_ok (deck s)" and "permutes_cards rnd" and "\<not> player_busted s"
  shows "\<exists>s' drawn. process_dealer_turn rnd s = Some s'
     \<and> game_state s' = SHOWDOWN
     \<and> dealer_hand s' = dealer_hand s @ drawn
     \<and> (\<forall>n<length drawn. calculate_hand_value (dealer_hand s @ take n drawn) < 17)
     \<and> (drawn \<noteq> [] \<longleftrightarrow> calculate_hand_value (dealer_hand s) < 17)
     \<and> 17 \<le> calculate_hand_value (dealer_hand s')
     \<and> dealer_busted s' = (dealer_busted s \<or> 21 < calculate_hand_value (dealer_hand s'))
     \<and> player_hand s' = player_hand s"
proof -
  let ?s1 = "s\<lparr>show_dealer_card := True\<rparr>"
  have "deck_ok (deck ?s1)" using assms(1) by simp
  from dealer_loop_total [OF this assms(2)] obtain s2 drawn where r:
    "dealer_loop rnd ?s1 = Some s2"
    "17 \<le> calculate_hand_value (dealer_hand s2)"
    "dealer_hand s2 = dealer_hand s @ drawn"
    "\<forall>n<length drawn. calculate_hand_value (dealer_hand s @ take n drawn) < 17"
    "same_table ?s1 s2"
    by auto
  let ?s' = "(if calculate_hand_value (dealer_hand s2) > 21
              then s2\<lparr>dealer_busted := True\<rparr> else s2)\<lparr>game_state := SHOWDOWN\<rparr>"
  have p: "process_dealer_turn rnd s = Some ?s'"
    using assms(3) r(1) by (simp add: process_dealer_turn_def Let_def)
  have hand: "dealer_hand ?s' = dealer_hand s @ drawn"
    using r(3) by simp
  have draws: "drawn \<noteq> [] \<longleftrightarrow> calculate_hand_value (dealer_hand s) < 17"
  proof
    assume "drawn \<noteq> []"
    then have "0 < length drawn" by simp
    with r(4) have "calculate_hand_value (dealer_hand s @ take 0 drawn) < 17" by blast
    then show "calculate_hand_value (dealer_hand s) < 17" by simp
  next
    assume "calculate_hand_value (dealer_hand s) < 17"
    with r(2,3) show "drawn \<noteq> []" by auto
  qed
  have busted: "dealer_busted ?s' = (dealer_busted s \<or> 21 < calculate_hand_value (dealer_hand ?s'))"
    using r(5) by (simp add: same_table_def)
  have ph: "player_hand ?s' = player_hand s"
    using r(5) by (simp add: same_table_def)
  have v: "17 \<le> calculate_hand_value (dealer_hand ?s')"
    using r(2) by simp
  have g: "game_state ?s' = SHOWDOWN" by simp
  from p g hand r(4) draws v busted ph show ?thesis
    by blast
qed

theorem dealer_stands_on_17_witness:
  "deck_ok (deck (table DEALER_TURN 500 10 [Card Clubs R10, Card Clubs R8]
       [Card Spades A, Card Hearts R6] [Card Diamonds R5]))
   \<and> permutes_cards (\<lambda>k. rev)
   \<and> \<not> player_busted (table DEALER_TURN 500 10 [Card Clubs R10, Card Clubs R8]
       [Card Spades A, Card Hearts R6] [Card Diamonds R5])
   \<and> calculate_hand_value [Card Spades A, Card Hearts R6] = 17
   \<and> map_option dealer_hand (process_dealer_turn (\<lambda>k. rev)
        (table DEALER_TURN 500 10 [Card Clubs R10, Card Clubs R8]
          [Card Spades A, Card Hearts R6] [Card Diamonds R5]))
      = Some [Card Spades A, Card Hearts R6]"
proof -
  let ?t = "table DEALER_TURN 500 10 [Card Clubs R10, Card Clubs R8]
       [Card Spades A, Card Hearts R6] [Card Diamonds R5]"
  have ok: "deck_ok (deck ?t)" by (simp add: deck_ok_shoe)
  have nb: "\<not> player_busted ?t" by (simp add: table_def)
  have dh: "dealer_hand ?t = [Card Spades A, Card Hearts R6]" by (simp add: table_def)
  from dealer_stands_on_17 [OF ok permutes_cards_rev nb] obtain s' drawn where r:
    "process_dealer_turn (\<lambda>k. rev) ?t = Some s'"
    "dealer_hand s' = dealer_hand ?t @ drawn"
    "drawn \<noteq> [] \<longleftrightarrow> calculate_hand_value (dealer_hand ?t) < 17"
    by blast
  from r(3) have "drawn = []" by (simp add: dh value17)
  with r(1,2) have "map_option dealer_hand (process_dealer_turn (\<lambda>k. rev) ?t)
      = Some [Card Spades A, Card Hearts R6]"
    by (simp add: dh)
  with ok nb permutes_cards_rev value17 show ?thesis by blast
qed

text \<open>
  C8, as the claim states its reason: a drawn card does not always raise the value of
  the hand. The dealer holding an Ace and a 5 (16, so a card is drawn) who draws a King
  still holds 16.
\<close>

theorem dealer_value_not_increasing:
  "calculate_hand_value [Card Hearts A, Card Clubs R5] < 17
   \<and> \<not> calculate_hand_value [Card Hearts A, Card Clubs R5]
        < calculate_hand_value (add_card [Card Hearts A, Card Clubs R5] (Some (Card Spades K)))"
  by (simp add: calculate_hand_value_def card_value_def adjust_aces_stop adjust_aces_step)

text \<open>
  C8, amended. The dealer's loop ends for every hand and every shoe of at least one
  pack, on a hand worth at least 17, after at most \<open>17 - hard_total\<close> draws, and so
  \<^verbatim>\<open>process_dealer_turn\<close> returns. The reason is the total with every Ace counted 1:
  each drawn card raises it by at least 1, and the value of a hand is never below it.
  The other operations of the engine loop only over a hand or over the two rounds of the
  first deal; they are total functions here.
\<close>

theorem dealer_loop_terminates:
  assumes "deck_ok (deck s)" and "permutes_cards rnd"
  shows "(\<exists>s'. dealer_loop rnd s = Some s'
           \<and> 17 \<le> calculate_hand_value (dealer_hand s')
           \<and> int (length (dealer_hand s')) \<le> int (length (dealer_hand s))
                + max 0 (17 - hard_total (dealer_hand s)))
     \<and> (\<exists>s'. process_dealer_turn rnd s = Some s')
     \<and> (\<forall>h c. hard_total h < hard_total (add_card h (Some c))
             \<and> hard_total h \<le> calculate_hand_value h)"
proof -
  from dealer_loop_total [OF assms] obtain s' drawn where r:
    "dealer_loop rnd s = Some s'" "17 \<le> calculate_hand_value (dealer_hand s')"
    "dealer_hand s' = dealer_hand s @ drawn"
    "int (length drawn) \<le> max 0 (17 - hard_total (dealer_hand s))"
    by blast
  then have a: "\<exists>s'. dealer_loop rnd s = Some s'
           \<and> 17 \<le> calculate_hand_value (dealer_hand s')
           \<and> int (length (dealer_hand s')) \<le> int (length (dealer_hand s))
                + max 0 (17 - hard_total (dealer_hand s))"
    by (intro exI [of _ s']) simp
  have "deck_ok (deck (s\<lparr>show_dealer_card := True\<rparr>))" using assms(1) by simp
  from dealer_loop_total [OF this assms(2)] obtain s2 where
    "dealer_loop rnd (s\<lparr>show_dealer_card := True\<rparr>) = Some s2"
    by blast
  then have b: "\<exists>s'. process_dealer_turn rnd s = Some s'"
    by (simp add: process_dealer_turn_def Let_def)
  have c: "\<forall>h c. hard_total h < hard_total (add_card h (Some c))
             \<and> hard_total h \<le> calculate_hand_value h"
    by (simp add: hard_total_snoc hard_total_le_value)
  from a b c show ?thesis by blast
qed

theorem dealer_loop_terminates_witness:
  "deck_ok (deck (table DEALER_TURN 500 10 [Card Clubs R10, Card Clubs R8]
       [Card Hearts A, Card Clubs R5] [Card Spades K, Card Diamonds R3]))
   \<and> permutes_cards (\<lambda>k. rev)
   \<and> (\<exists>s'. dealer_loop (\<lambda>k. rev) (table DEALER_TURN 500 10 [Card Clubs R10, Card Clubs R8]
       [Card Hearts A, Card Clubs R5] [Card Spades K, Card Diamonds R3]) = Some s'
         \<and> 17 \<le> calculate_hand_value (dealer_hand s'))"
proof -
  let ?t = "table DEALER_TURN 500 10 [Card Clubs R10, Card Clubs R8]
       [Card Hearts A, Card Clubs R5] [Card Spades K, Card Diamonds R3]"
  have ok: "deck_ok (deck ?t)" by (simp add: deck_ok_shoe)
  from dealer_loop_terminates [OF ok permutes_cards_rev]
  have "\<exists>s'. dealer_loop (\<lambda>k. rev) ?t = Some s' \<and> 17 \<le> calculate_hand_value (dealer_hand s')"
    by blast
  with ok permutes_cards_rev show ?thesis by blast
qed

section \<open>Placing the bet\<close>




lemma deal_top:
  assumes "cards (deck s) = rest @ [d]" and "reshuffle_point (deck s) \<le> int (length rest)"
  shows "deal rnd s = (Some d, s\<lparr>deck := (deck s)\<lparr>cards := rest\<rparr>\<rparr>)"
  using assms by (simp add: deal_def Let_def needs_reshuffle_def)

lemma two_pairs:
  assumes d: "deal rnd s = (Some c1, t1)" "deal rnd t1 = (Some c2, t2)"
    "deal rnd t2 = (Some c3, t3)" "deal rnd t3 = (Some c4, t4)"
    and h: "player_hand s = []" "dealer_hand s = []"
  shows "deal_pair rnd (deal_pair rnd s) = t4\<lparr>player_hand := [c1, c3], dealer_hand := [c2, c4]\<rparr>"
proof -
  let ?u = "t2\<lparr>player_hand := [c1], dealer_hand := [c2]\<rparr>"
  have u: "deal_pair rnd s = ?u"
    using deal_pair_eq [OF d(1,2)] h by simp
  have d3: "deal rnd ?u = (Some c3, t3\<lparr>player_hand := [c1], dealer_hand := [c2]\<rparr>)"
    by (simp add: deal_player_hand deal_dealer_hand d(3))
  have d4: "deal rnd (t3\<lparr>player_hand := [c1], dealer_hand := [c2]\<rparr>)
      = (Some c4, t4\<lparr>player_hand := [c1], dealer_hand := [c2]\<rparr>)"
    by (simp add: deal_player_hand deal_dealer_hand d(4))
  show ?thesis
    unfolding u by (simp add: deal_pair_eq [OF d3 d4])
qed

lemma four_deals_frame:
  assumes "deck_ok (deck s)" and "permutes_cards rnd"
  obtains c1 c2 c3 c4 t1 t2 t3 t4 where
    "deal rnd s = (Some c1, t1)" "deal rnd t1 = (Some c2, t2)"
    "deal rnd t2 = (Some c3, t3)" "deal rnd t3 = (Some c4, t4)"
    "deck_ok (deck t4)" "same_table s t4"
proof -
  from assms obtain c1 t1 where 1: "deal rnd s = (Some c1, t1)" "deck_ok (deck t1)"
    "same_table s t1"
    by (rule deal_total)
  from 1(2) assms(2) obtain c2 t2 where 2: "deal rnd t1 = (Some c2, t2)" "deck_ok (deck t2)"
    "same_table t1 t2"
    by (rule deal_total)
  from 2(2) assms(2) obtain c3 t3 where 3: "deal rnd t2 = (Some c3, t3)" "deck_ok (deck t3)"
    "same_table t2 t3"
    by (rule deal_total)
  from 3(2) assms(2) obtain c4 t4 where 4: "deal rnd t3 = (Some c4, t4)" "deck_ok (deck t4)"
    "same_table t3 t4"
    by (rule deal_total)
  have "same_table s t4"
    using 1(3) 2(3) 3(3) 4(3) by (blast intro: same_table_trans)
  with 1(1) 2(1) 3(1) 4(1) 4(2) show ?thesis by (rule that)
qed

lemma place_bet_top:
  assumes "0 < player_money s" and "1 / 100 \<le> amount" and "amount \<le> player_money s"
    and c: "cards (deck s) = rest @ [d4, d3, d2, d1]"
    and r: "reshuffle_point (deck s) \<le> int (length rest)"
  shows "display_betting_screen rnd amount s =
     (None,
      s\<lparr>bet := amount, message := [],
        round_over := False, show_dealer_card := False,
        player_busted := False, dealer_busted := False,
        reshuffled_message := [],
        deck := (deck s)\<lparr>cards := rest\<rparr>,
        player_hand := [d1, d3], dealer_hand := [d2, d4],
        player_blackjack := (calculate_hand_value [d1, d3] = 21),
        dealer_blackjack := (calculate_hand_value [d2, d4] = 21),
        game_state := (if calculate_hand_value [d1, d3] = 21 \<or> calculate_hand_value [d2, d4] = 21
                       then DEALER_TURN else PLAYER_TURN)\<rparr>)"
proof -
  let ?s1 = "s\<lparr>bet := amount, game_state := PLAYER_TURN, message := [],
                round_over := False, show_dealer_card := False,
                player_busted := False, dealer_busted := False,
                player_blackjack := False, dealer_blackjack := False\<rparr>"
  let ?u0 = "?s1\<lparr>reshuffled_message := [], player_hand := [], dealer_hand := []\<rparr>"
  let ?u1 = "?u0\<lparr>deck := (deck ?u0)\<lparr>cards := rest @ [d4, d3, d2]\<rparr>\<rparr>"
  let ?u2 = "?u1\<lparr>deck := (deck ?u1)\<lparr>cards := rest @ [d4, d3]\<rparr>\<rparr>"
  let ?u3 = "?u2\<lparr>deck := (deck ?u2)\<lparr>cards := rest @ [d4]\<rparr>\<rparr>"
  let ?u4 = "?u3\<lparr>deck := (deck ?u3)\<lparr>cards := rest\<rparr>\<rparr>"
  have nr: "\<not> needs_reshuffle (deck s)"
    using c r by (simp add: needs_reshuffle_def)
  have e1: "deal rnd ?u0 = (Some d1, ?u1)"
    by (rule deal_top) (use c r in simp_all)
  have e2: "deal rnd ?u1 = (Some d2, ?u2)"
    by (rule deal_top) (use c r in simp_all)
  have e3: "deal rnd ?u2 = (Some d3, ?u3)"
    by (rule deal_top) (use c r in simp_all)
  have e4: "deal rnd ?u3 = (Some d4, ?u4)"
    by (rule deal_top) (use c r in simp_all)
  have pairs: "deal_pair rnd (deal_pair rnd ?u0)
      = ?u4\<lparr>player_hand := [d1, d3], dealer_hand := [d2, d4]\<rparr>"
    using e1 e2 e3 e4 by (rule two_pairs) simp_all
  show ?thesis
    using assms(1-3) nr by (simp add: display_betting_screen_def place_bet_def Let_def pairs)
qed

lemma display_betting_screen_alternates:
  assumes "deck_ok (deck s)" and "permutes_cards rnd"
    and "0 < player_money s" and "1 / 100 \<le> amount" and "amount \<le> player_money s"
  shows "(\<exists>c1 c2 c3 c4.
        deals rnd 4 (if needs_reshuffle (deck s) then build_and_shuffle rnd s else s)
          = [Some c1, Some c2, Some c3, Some c4]
      \<and> player_hand (snd (display_betting_screen rnd amount s)) = [c1, c3]
      \<and> dealer_hand (snd (display_betting_screen rnd amount s)) = [c2, c4])
    \<and> (\<forall>rest d1 d2 d3 d4.
        cards (deck s) = rest @ [d4, d3, d2, d1] \<and> reshuffle_point (deck s) \<le> int (length rest)
        \<longrightarrow> player_hand (snd (display_betting_screen rnd amount s)) = [d1, d3]
          \<and> dealer_hand (snd (display_betting_screen rnd amount s)) = [d2, d4]
          \<and> cards (deck (snd (display_betting_screen rnd amount s))) = rest)"
proof -
  let ?start = "if needs_reshuffle (deck s) then build_and_shuffle rnd s else s"
  let ?s1 = "s\<lparr>bet := amount, game_state := PLAYER_TURN, message := [],
                round_over := False, show_dealer_card := False,
                player_busted := False, dealer_busted := False,
                player_blackjack := False, dealer_blackjack := False\<rparr>"
  let ?s2 = "if needs_reshuffle (deck ?s1) then build_and_shuffle rnd ?s1
             else ?s1\<lparr>reshuffled_message := []\<rparr>"
  let ?s3 = "?s2\<lparr>player_hand := [], dealer_hand := []\<rparr>"
  let ?s4 = "deal_pair rnd (deal_pair rnd ?s3)"
  have hands: "player_hand (snd (display_betting_screen rnd amount s)) = player_hand ?s4"
    "dealer_hand (snd (display_betting_screen rnd amount s)) = dealer_hand ?s4"
    "deck (snd (display_betting_screen rnd amount s)) = deck ?s4"
    using assms(3-5) by (simp_all add: display_betting_screen_def place_bet_def Let_def)
  have same: "deck ?s3 = deck ?start" "rng ?s3 = rng ?start"
    by (simp_all add: build_and_shuffle_def)
  have empty: "player_hand ?s3 = []" "dealer_hand ?s3 = []"
    by simp_all
  have ok: "deck_ok (deck ?s3)"
    unfolding same using assms(1) by (simp add: build_and_shuffle_def deck_ok_def)
  from ok assms(2) obtain c1 c2 c3 c4 t1 t2 t3 t4 where d:
    "deal rnd ?s3 = (Some c1, t1)" "deal rnd t1 = (Some c2, t2)"
    "deal rnd t2 = (Some c3, t3)" "deal rnd t3 = (Some c4, t4)"
    by (rule four_deals_frame)
  have s4: "?s4 = t4\<lparr>player_hand := [c1, c3], dealer_hand := [c2, c4]\<rparr>"
    using d empty by (rule two_pairs)
  have "deals rnd 4 ?s3 = [Some c1, Some c2, Some c3, Some c4]"
    using d by (simp add: eval_nat_numeral)
  then have ds: "deals rnd 4 ?start = [Some c1, Some c2, Some c3, Some c4]"
    using deals_cong [OF same, of rnd 4] by simp
  have first: "\<exists>c1 c2 c3 c4.
        deals rnd 4 ?start = [Some c1, Some c2, Some c3, Some c4]
      \<and> player_hand (snd (display_betting_screen rnd amount s)) = [c1, c3]
      \<and> dealer_hand (snd (display_betting_screen rnd amount s)) = [c2, c4]"
    using ds unfolding hands s4 by simp
  have second: "player_hand (snd (display_betting_screen rnd amount s)) = [d1, d3]
          \<and> dealer_hand (snd (display_betting_screen rnd amount s)) = [d2, d4]
          \<and> cards (deck (snd (display_betting_screen rnd amount s))) = rest"
    if c: "cards (deck s) = rest @ [d4, d3, d2, d1]"
      and r: "reshuffle_point (deck s) \<le> int (length rest)"
    for rest d1 d2 d3 d4
  proof -
    have nr: "\<not> needs_reshuffle (deck s)"
      using c r by (simp add: needs_reshuffle_def)
    then have s3: "?s3 = ?s1\<lparr>reshuffled_message := [], player_hand := [], dealer_hand := []\<rparr>"
      by simp
    let ?u0 = "?s1\<lparr>reshuffled_message := [], player_hand := [], dealer_hand := []\<rparr>"
    let ?u1 = "?u0\<lparr>deck := (deck ?u0)\<lparr>cards := rest @ [d4, d3, d2]\<rparr>\<rparr>"
    let ?u2 = "?u1\<lparr>deck := (deck ?u1)\<lparr>cards := rest @ [d4, d3]\<rparr>\<rparr>"
    let ?u3 = "?u2\<lparr>deck := (deck ?u2)\<lparr>cards := rest @ [d4]\<rparr>\<rparr>"
    let ?u4 = "?u3\<lparr>deck := (deck ?u3)\<lparr>cards := rest\<rparr>\<rparr>"
    have e1: "deal rnd ?u0 = (Some d1, ?u1)"
      by (rule deal_top) (use c r in simp_all)
    have e2: "deal rnd ?u1 = (Some d2, ?u2)"
      by (rule deal_top) (use c r in simp_all)
    have e3: "deal rnd ?u2 = (Some d3, ?u3)"
      by (rule deal_top) (use c r in simp_all)
    have e4: "deal rnd ?u3 = (Some d4, ?u4)"
      by (rule deal_top) (use c r in simp_all)
    have "deal_pair rnd (deal_pair rnd ?u0)
        = ?u4\<lparr>player_hand := [d1, d3], dealer_hand := [d2, d4]\<rparr>"
      using e1 e2 e3 e4 by (rule two_pairs) simp_all
    then show ?thesis
      unfolding hands s3 by simp
  qed
  from first second show ?thesis by blast
qed

lemma pop_snoc: "pop (xs @ [x]) = Some (x, xs)"
  by (simp add: pop_def)

lemma pop_Some: "pop xs = Some (c, r) \<Longrightarrow> xs = r @ [c]"
  by (auto simp: pop_def split: if_splits)

lemma place_bet_script_top:
  assumes "amount \<le> script_player_money t" and "script_deck t = rest @ [d4, d3, d2, d1]"
  shows "place_bet_script amount t =
     (None, t\<lparr>script_bet := amount, script_deck := rest, script_player_hand := [d1, d2],
              script_dealer_hand := [d3, d4], game_phase := player_turn\<rparr>)"
  using assms by (simp add: place_bet_script_def pop_def Let_def butlast_append)

lemma place_bet_script_success:
  assumes "place_bet_script amount t = (None, t')"
  shows "\<exists>c1 c2 c3 c4. pops 4 (script_deck t) = [c1, c2, c3, c4]
     \<and> script_player_hand t' = [c1, c2] \<and> script_dealer_hand t' = [c3, c4]
     \<and> script_deck t = script_deck t' @ [c4, c3, c2, c1]"
  using assms
  by (auto simp: place_bet_script_def Let_def eval_nat_numeral pop_snoc
      split: if_splits option.splits dest!: pop_Some)

lemma build_pairs_top:
  "build_pairs = take 48 build_pairs @ [(Spades, J), (Spades, Q), (Spades, K), (Spades, A)]"
  by (simp add: build_pairs_def SUITS_def RANKS_def)

text \<open>
  The single-deck script does not alternate. On the deck as it is built, the four pops of
  an accepted bet return the Ace, the King, the Queen and the Jack of spades, in this
  order; the player holds the first and the second of them, Ace and King, not the first
  and the third, and the dealer holds the third and the fourth.
\<close>

theorem place_bet_script_counterexample:
  "pops 4 build_pairs = [(Spades, A), (Spades, K), (Spades, Q), (Spades, J)]
   \<and> fst (place_bet_script 10 (script_table betting 500 0 [] [] build_pairs)) = None
   \<and> script_player_hand (snd (place_bet_script 10 (script_table betting 500 0 [] [] build_pairs)))
       = [(Spades, A), (Spades, K)]
   \<and> script_player_hand (snd (place_bet_script 10 (script_table betting 500 0 [] [] build_pairs)))
       \<noteq> [(Spades, A), (Spades, Q)]
   \<and> script_dealer_hand (snd (place_bet_script 10 (script_table betting 500 0 [] [] build_pairs)))
       = [(Spades, Q), (Spades, J)]
   \<and> script_dealer_hand (snd (place_bet_script 10 (script_table betting 500 0 [] [] build_pairs)))
       \<noteq> [(Spades, K), (Spades, J)]"
proof -
  have p: "pops 4 build_pairs = [(Spades, A), (Spades, K), (Spades, Q), (Spades, J)]"
    by (subst build_pairs_top) (simp add: eval_nat_numeral pop_def butlast_append)
  have "script_deck (script_table betting 500 0 [] [] build_pairs)
      = take 48 build_pairs @ [(Spades, J), (Spades, Q), (Spades, K), (Spades, A)]"
    using build_pairs_top by (simp add: script_table_def)
  from place_bet_script_top [OF _ this, of 10] p show ?thesis
    by (simp add: script_table_def)
qed

text \<open>
  C7, for the multi-deck engine and for the script. In the engine an accepted bet deals
  four cards alternately: the player's hand is the first and the third of the four cards
  that \<^verbatim>\<open>deal\<close> returns, starting from the shoe as the reshuffle check leaves it, and
  the dealer's hand is the second and the fourth. In particular, when the top of the shoe
  holds \<open>d1\<close>, \<open>d2\<close>, \<open>d3\<close>, \<open>d4\<close> above enough cards that no reshuffle happens, the
  player holds \<open>d1\<close> and \<open>d3\<close>, the dealer \<open>d2\<close> and \<open>d4\<close>, and the shoe is left with the
  cards below. In the single-deck script every accepted bet gives the player the first and
  the second of the four cards popped from the deck and the dealer the third and the
  fourth, and leaves the deck without its last four cards.
\<close>

theorem initial_deal_alternates:
  "(deck_ok (deck s) \<and> permutes_cards rnd
      \<and> 0 < player_money s \<and> 1 / 100 \<le> amount \<and> amount \<le> player_money s
    \<longrightarrow> (\<exists>c1 c2 c3 c4.
        deals rnd 4 (if needs_reshuffle (deck s) then build_and_shuffle rnd s else s)
          = [Some c1, Some c2, Some c3, Some c4]
      \<and> player_hand (snd (display_betting_screen rnd amount s)) = [c1, c3]
      \<and> dealer_hand (snd (display_betting_screen rnd amount s)) = [c2, c4])
    \<and> (\<forall>rest d1 d2 d3 d4.
        cards (deck s) = rest @ [d4, d3, d2, d1] \<and> reshuffle_point (deck s) \<le> int (length rest)
        \<longrightarrow> player_hand (snd (display_betting_screen rnd amount s)) = [d1, d3]
          \<and> dealer_hand (snd (display_betting_screen rnd amount s)) = [d2, d4]
          \<and> cards (deck (snd (display_betting_screen rnd amount s))) = rest))
   \<and> (\<forall>t'. place_bet_script stake t = (None, t')
    \<longrightarrow> (\<exists>c1 c2 c3 c4.
        pops 4 (script_deck t) = [c1, c2, c3, c4]
      \<and> script_player_hand t' = [c1, c2]
      \<and> script_dealer_hand t' = [c3, c4]
      \<and> script_deck t = script_deck t' @ [c4, c3, c2, c1]))"
proof -
  have engine: "(\<exists>c1 c2 c3 c4.
        deals rnd 4 (if needs_reshuffle (deck s) then build_and_shuffle rnd s else s)
          = [Some c1, Some c2, Some c3, Some c4]
      \<and> player_hand (snd (display_betting_screen rnd amount s)) = [c1, c3]
      \<and> dealer_hand (snd (display_betting_screen rnd amount s)) = [c2, c4])
    \<and> (\<forall>rest d1 d2 d3 d4.
        cards (deck s) = rest @ [d4, d3, d2, d1] \<and> reshuffle_point (deck s) \<le> int (length rest)
        \<longrightarrow> player_hand (snd (display_betting_screen rnd amount s)) = [d1, d3]
          \<and> dealer_hand (snd (display_betting_screen rnd amount s)) = [d2, d4]
          \<and> cards (deck (snd (display_betting_screen rnd amount s))) = rest)"
    if "deck_ok (deck s) \<and> permutes_cards rnd
      \<and> 0 < player_money s \<and> 1 / 100 \<le> amount \<and> amount \<le> player_money s"
  proof -
    from that have e: "deck_ok (deck s)" "permutes_cards rnd" "0 < player_money s"
      "1 / 100 \<le> amount" "amount \<le> player_money s"
      by simp_all
    show ?thesis by (rule display_betting_screen_alternates [OF e])
  qed
  have script: "\<exists>c1 c2 c3 c4.
        pops 4 (script_deck t) = [c1, c2, c3, c4]
      \<and> script_player_hand t' = [c1, c2]
      \<and> script_dealer_hand t' = [c3, c4]
      \<and> script_deck t = script_deck t' @ [c4, c3, c2, c1]"
    if "place_bet_script stake t = (None, t')" for t'
    using that by (rule place_bet_script_success)
  show ?thesis
    apply (rule conjI)
     apply (rule impI)
     apply (erule engine)
    apply (rule allI)
    apply (rule impI)
    apply (erule script)
    done
qed

theorem initial_deal_alternates_witness:
  "deck_ok (deck (table BETTING 500 0 [] []
       [Card Spades R10, Card Hearts R9, Card Clubs R7, Card Diamonds R9]))
   \<and> permutes_cards (\<lambda>k. rev)
   \<and> 0 < player_money (table BETTING 500 0 [] []
       [Card Spades R10, Card Hearts R9, Card Clubs R7, Card Diamonds R9])
   \<and> (1 / 100 :: rat) \<le> 10
   \<and> 10 \<le> player_money (table BETTING 500 0 [] []
       [Card Spades R10, Card Hearts R9, Card Clubs R7, Card Diamonds R9])
   \<and> player_hand (snd (display_betting_screen (\<lambda>k. rev) 10 (table BETTING 500 0 [] []
       [Card Spades R10, Card Hearts R9, Card Clubs R7, Card Diamonds R9])))
      = [Card Spades R10, Card Clubs R7]
   \<and> dealer_hand (snd (display_betting_screen (\<lambda>k. rev) 10 (table BETTING 500 0 [] []
       [Card Spades R10, Card Hearts R9, Card Clubs R7, Card Diamonds R9])))
      = [Card Hearts R9, Card Diamonds R9]
   \<and> fst (place_bet_script 10 (script_table betting 500 0 [] []
       [(Hearts, R2), (Diamonds, R9), (Clubs, R7), (Hearts, R9), (Spades, R10)])) = None
   \<and> script_player_hand (snd (place_bet_script 10 (script_table betting 500 0 [] []
       [(Hearts, R2), (Diamonds, R9), (Clubs, R7), (Hearts, R9), (Spades, R10)])))
      = [(Spades, R10), (Hearts, R9)]
   \<and> script_dealer_hand (snd (place_bet_script 10 (script_table betting 500 0 [] []
       [(Hearts, R2), (Diamonds, R9), (Clubs, R7), (Hearts, R9), (Spades, R10)])))
      = [(Clubs, R7), (Diamonds, R9)]"
proof -
  let ?t = "table BETTING 500 0 [] []
       [Card Spades R10, Card Hearts R9, Card Clubs R7, Card Diamonds R9]"
  let ?d = "[(Hearts, R2), (Diamonds, R9), (Clubs, R7), (Hearts, R9), (Spades, R10)]"
  let ?u = "script_table betting 500 0 [] [] ?d"
  note th = initial_deal_alternates [of ?t "\<lambda>k. rev" 10 10 ?u]
  have ok: "deck_ok (deck ?t)" by (simp add: deck_ok_shoe)
  have m: "0 < player_money ?t" "(1 / 100 :: rat) \<le> 10" "10 \<le> player_money ?t"
    by (simp_all add: table_def)
  have c: "cards (deck ?t) = build_cards 1
      @ [Card Diamonds R9, Card Clubs R7, Card Hearts R9, Card Spades R10]
    \<and> reshuffle_point (deck ?t) \<le> int (length (build_cards 1))"
    by (simp add: shoe_def length_build_cards)
  from ok permutes_cards_rev m
  have "\<forall>rest d1 d2 d3 d4.
        cards (deck ?t) = rest @ [d4, d3, d2, d1] \<and> reshuffle_point (deck ?t) \<le> int (length rest)
        \<longrightarrow> player_hand (snd (display_betting_screen (\<lambda>k. rev) 10 ?t)) = [d1, d3]
          \<and> dealer_hand (snd (display_betting_screen (\<lambda>k. rev) 10 ?t)) = [d2, d4]
          \<and> cards (deck (snd (display_betting_screen (\<lambda>k. rev) 10 ?t))) = rest"
    by (intro th [THEN conjunct1, rule_format, THEN conjunct2] conjI)
  from this [rule_format, OF c]
  have engine: "player_hand (snd (display_betting_screen (\<lambda>k. rev) 10 ?t))
      = [Card Spades R10, Card Clubs R7]"
    "dealer_hand (snd (display_betting_screen (\<lambda>k. rev) 10 ?t))
      = [Card Hearts R9, Card Diamonds R9]"
    by simp_all
  have p: "pops 4 (script_deck ?u) = [(Spades, R10), (Hearts, R9), (Clubs, R7), (Diamonds, R9)]"
    by (simp add: script_table_def eval_nat_numeral pop_def)
  have "fst (place_bet_script 10 ?u) = None"
    by (simp add: place_bet_script_def script_table_def pop_def Let_def)
  then have s: "place_bet_script 10 ?u = (None, snd (place_bet_script 10 ?u))"
    by (simp add: prod_eq_iff)
  from th [THEN conjunct2, rule_format, OF s] p
  have script: "script_player_hand (snd (place_bet_script 10 ?u)) = [(Spades, R10), (Hearts, R9)]"
    "script_dealer_hand (snd (place_bet_script 10 ?u)) = [(Clubs, R7), (Diamonds, R9)]"
    by auto
  from s have f: "fst (place_bet_script 10 ?u) = None"
    by (simp add: prod_eq_iff)
  from ok permutes_cards_rev m engine f script show ?thesis
    by (intro conjI)
qed

section \<open>Double down\<close>

text \<open>
  C5, as the claim states it: the player doubles down on 10 and 5 and draws a King. The
  hand busts, and the state is \<^verbatim>\<open>SHOWDOWN\<close>, not \<^verbatim>\<open>DEALER_TURN\<close>.
\<close>

theorem double_down_bust_counterexample:
  "game_state (table PLAYER_TURN 500 10 [Card Spades R10, Card Hearts R5]
       [Card Clubs R9, Card Diamonds R8] [Card Clubs K]) = PLAYER_TURN
   \<and> can_double_down (table PLAYER_TURN 500 10 [Card Spades R10, Card Hearts R5]
       [Card Clubs R9, Card Diamonds R8] [Card Clubs K])
   \<and> map_option game_state (double_down (\<lambda>k. rev)
       (table PLAYER_TURN 500 10 [Card Spades R10, Card Hearts R5]
         [Card Clubs R9, Card Diamonds R8] [Card Clubs K])) = Some SHOWDOWN
   \<and> map_option game_state (double_down (\<lambda>k. rev)
       (table PLAYER_TURN 500 10 [Card Spades R10, Card Hearts R5]
         [Card Clubs R9, Card Diamonds R8] [Card Clubs K])) \<noteq> Some DEALER_TURN"
proof -
  let ?t = "table PLAYER_TURN 500 10 [Card Spades R10, Card Hearts R5]
       [Card Clubs R9, Card Diamonds R8] [Card Clubs K]"
  let ?t2 = "?t\<lparr>player_money := player_money ?t - bet ?t, bet := bet ?t * 2\<rparr>"
  have g: "game_state ?t = PLAYER_TURN" and c: "can_double_down ?t"
    by (simp_all add: table_def can_double_down_def)
  have d: "deal (\<lambda>k. rev) ?t2 = (Some (Card Clubs K), ?t2\<lparr>deck := (deck ?t2)\<lparr>cards := build_cards 1\<rparr>\<rparr>)"
    by (rule deal_top) (simp_all add: table_def shoe_def length_build_cards)
  have v: "calculate_hand_value [Card Spades R10, Card Hearts R5, Card Clubs K] = 25"
    by (simp add: calculate_hand_value_def card_value_def adjust_aces_stop)
  have "map_option game_state (double_down (\<lambda>k. rev) ?t) = Some SHOWDOWN"
    using g c d by (simp add: double_down_def Let_def) (simp add: table_def v)
  with g c show ?thesis by auto
qed

text \<open>
  C5, amended. In \<^verbatim>\<open>PLAYER_TURN\<close>, the double down is not offered unless the player
  holds exactly two cards and the balance covers the bet. When it is taken, the bet is
  doubled, the original bet is taken off the player's balance at once (the dealer's balance
  is not touched), exactly one card, the one \<^verbatim>\<open>deal\<close> returns, is added to the player's
  hand, and the dealer's hand is not touched. If the hand is now worth more than 21 the
  bust is recorded and the state is \<^verbatim>\<open>SHOWDOWN\<close> directly; otherwise the state is
  \<^verbatim>\<open>DEALER_TURN\<close>.
\<close>

theorem double_down_contract:
  assumes "game_state s = PLAYER_TURN" and "deck_ok (deck s)" and "permutes_cards rnd"
  shows "(double_down rnd s = None
           \<longleftrightarrow> \<not> (length (player_hand s) = 2 \<and> player_money s \<ge> bet s))
     \<and> (\<forall>s'. double_down rnd s = Some s' \<longrightarrow>
           bet s' = 2 * bet s
         \<and> player_money s' = player_money s - bet s
         \<and> dealer_money s' = dealer_money s
         \<and> (\<exists>c. fst (deal rnd s) = Some c \<and> player_hand s' = player_hand s @ [c])
         \<and> dealer_hand s' = dealer_hand s
         \<and> (if calculate_hand_value (player_hand s') > 21
            then game_state s' = SHOWDOWN \<and> player_busted s'
            else game_state s' = DEALER_TURN \<and> player_busted s' = player_busted s))"
proof -
  let ?s2 = "s\<lparr>player_money := player_money s - bet s, bet := bet s * 2\<rparr>"
  have "deck_ok (deck ?s2)" using assms(2) by simp
  from this assms(3) obtain c s3 where d: "deal rnd ?s2 = (Some c, s3)" "same_table ?s2 s3"
    "dealer_hand s3 = dealer_hand ?s2"
    by (rule deal_total)
  have "fst (deal rnd ?s2) = fst (deal rnd s)"
    by (rule deal_cong [THEN conjunct1]) simp_all
  with d(1) have c: "fst (deal rnd s) = Some c" by simp
  let ?s4 = "s3\<lparr>player_hand := player_hand s3 @ [c]\<rparr>"
  have dd: "can_double_down s \<Longrightarrow> double_down rnd s =
      Some (if calculate_hand_value (player_hand ?s4) > 21
            then ?s4\<lparr>player_busted := True, game_state := SHOWDOWN\<rparr>
            else ?s4\<lparr>game_state := DEALER_TURN\<rparr>)"
    using assms(1) d(1) by (simp add: double_down_def Let_def)
  show ?thesis
  proof (cases "can_double_down s")
    case False
    then have "double_down rnd s = None"
      by (simp add: double_down_def)
    with False show ?thesis
      by (simp add: can_double_down_def)
  next
    case True
    then have can: "length (player_hand s) = 2 \<and> player_money s \<ge> bet s"
      by (simp add: can_double_down_def)
    let ?r = "if calculate_hand_value (player_hand ?s4) > 21
            then ?s4\<lparr>player_busted := True, game_state := SHOWDOWN\<rparr>
            else ?s4\<lparr>game_state := DEALER_TURN\<rparr>"
    have r: "double_down rnd s = Some ?r" by (rule dd [OF True])
    have f: "bet ?r = 2 * bet s" "player_money ?r = player_money s - bet s"
      "dealer_money ?r = dealer_money s" "player_hand ?r = player_hand s @ [c]"
      "dealer_hand ?r = dealer_hand s"
      using d(2,3) by (simp_all add: same_table_def)
    have st: "if calculate_hand_value (player_hand ?r) > 21
            then game_state ?r = SHOWDOWN \<and> player_busted ?r
            else game_state ?r = DEALER_TURN \<and> player_busted ?r = player_busted s"
      using d(2) by (simp add: same_table_def)
    have "\<forall>s'. double_down rnd s = Some s' \<longrightarrow>
           bet s' = 2 * bet s
         \<and> player_money s' = player_money s - bet s
         \<and> dealer_money s' = dealer_money s
         \<and> (\<exists>c. fst (deal rnd s) = Some c \<and> player_hand s' = player_hand s @ [c])
         \<and> dealer_hand s' = dealer_hand s
         \<and> (if calculate_hand_value (player_hand s') > 21
            then game_state s' = SHOWDOWN \<and> player_busted s'
            else game_state s' = DEALER_TURN \<and> player_busted s' = player_busted s)"
      unfolding r using f st c by blast
    moreover have "double_down rnd s \<noteq> None" unfolding r by simp
    ultimately show ?thesis using can by blast
  qed
qed

theorem double_down_contract_witness:
  "game_state (table PLAYER_TURN 500 10 [Card Spades R6, Card Hearts R5]
       [Card Clubs R9, Card Diamonds R8] [Card Clubs R4]) = PLAYER_TURN
   \<and> deck_ok (deck (table PLAYER_TURN 500 10 [Card Spades R6, Card Hearts R5]
       [Card Clubs R9, Card Diamonds R8] [Card Clubs R4]))
   \<and> permutes_cards (\<lambda>k. rev)
   \<and> (\<exists>s'. double_down (\<lambda>k. rev) (table PLAYER_TURN 500 10 [Card Spades R6, Card Hearts R5]
       [Card Clubs R9, Card Diamonds R8] [Card Clubs R4]) = Some s'
        \<and> bet s' = 20 \<and> player_money s' = 490
        \<and> player_hand s' = [Card Spades R6, Card Hearts R5, Card Clubs R4]
        \<and> game_state s' = DEALER_TURN)"
proof -
  let ?t = "table PLAYER_TURN 500 10 [Card Spades R6, Card Hearts R5]
       [Card Clubs R9, Card Diamonds R8] [Card Clubs R4]"
  have g: "game_state ?t = PLAYER_TURN" by (simp add: table_def)
  have ok: "deck_ok (deck ?t)" by (simp add: deck_ok_shoe)
  have can: "length (player_hand ?t) = 2 \<and> player_money ?t \<ge> bet ?t"
    by (simp add: table_def)
  have d: "deal (\<lambda>k. rev) ?t = (Some (Card Clubs R4), ?t\<lparr>deck := (deck ?t)\<lparr>cards := build_cards 1\<rparr>\<rparr>)"
    by (rule deal_top) (simp_all add: shoe_def length_build_cards)
  have v: "\<not> calculate_hand_value [Card Spades R6, Card Hearts R5, Card Clubs R4] > 21"
    by (simp add: calculate_hand_value_def card_value_def adjust_aces_stop)
  note th = double_down_contract [OF g ok permutes_cards_rev]
  from th [THEN conjunct1] can have "double_down (\<lambda>k. rev) ?t \<noteq> None"
    by simp
  then obtain s' where s': "double_down (\<lambda>k. rev) ?t = Some s'"
    by blast
  from th [THEN conjunct2, rule_format, OF s']
  have r: "bet s' = 2 * bet ?t" "player_money s' = player_money ?t - bet ?t"
    "\<exists>c. fst (deal (\<lambda>k. rev) ?t) = Some c \<and> player_hand s' = player_hand ?t @ [c]"
    "if calculate_hand_value (player_hand s') > 21
     then game_state s' = SHOWDOWN \<and> player_busted s'
     else game_state s' = DEALER_TURN \<and> player_busted s' = player_busted ?t"
    by (rule conjunct1, rule conjunct2 [THEN conjunct1],
        rule conjunct2 [THEN conjunct2, THEN conjunct2, THEN conjunct1],
        rule conjunct2 [THEN conjunct2, THEN conjunct2, THEN conjunct2, THEN conjunct2])
  from r(3) d have h: "player_hand s' = [Card Spades R6, Card Hearts R5, Card Clubs R4]"
    by (simp add: table_def)
  with r(4) v have "game_state s' = DEALER_TURN" by simp
  moreover from r(1,2) have "bet s' = 20" "player_money s' = 490"
    by (simp_all add: table_def)
  ultimately have "\<exists>s'. double_down (\<lambda>k. rev) ?t = Some s'
        \<and> bet s' = 20 \<and> player_money s' = 490
        \<and> player_hand s' = [Card Spades R6, Card Hearts R5, Card Clubs R4]
        \<and> game_state s' = DEALER_TURN"
    using s' h by blast
  with g ok permutes_cards_rev show ?thesis by blast
qed

section \<open>The flags in a round\<close>

lemma place_bet_round_inv:
  assumes ok: "deck_ok (deck s)" and rnd: "permutes_cards rnd" and pos: "0 < player_money s"
    and res: "display_betting_screen rnd amount s = (None, s')"
  shows "round_inv s'"
proof -
  have valid: "1 / 100 \<le> amount \<and> amount \<le> player_money s"
    using res pos by (auto simp: display_betting_screen_def place_bet_def Let_def split: if_splits)
  let ?s1 = "s\<lparr>bet := amount, game_state := PLAYER_TURN, message := [],
                round_over := False, show_dealer_card := False,
                player_busted := False, dealer_busted := False,
                player_blackjack := False, dealer_blackjack := False\<rparr>"
  let ?s2 = "if needs_reshuffle (deck ?s1) then build_and_shuffle rnd ?s1
             else ?s1\<lparr>reshuffled_message := []\<rparr>"
  let ?s3 = "?s2\<lparr>player_hand := [], dealer_hand := []\<rparr>"
  let ?s4 = "deal_pair rnd (deal_pair rnd ?s3)"
  let ?s5 = "?s4\<lparr>player_blackjack := (calculate_hand_value (player_hand ?s4) = 21),
                  dealer_blackjack := (calculate_hand_value (dealer_hand ?s4) = 21)\<rparr>"
  have s': "s' = (if player_blackjack ?s5 \<or> dealer_blackjack ?s5
                  then ?s5\<lparr>game_state := DEALER_TURN\<rparr> else ?s5)"
    using res pos valid by (simp add: display_betting_screen_def place_bet_def Let_def)
  have ok3: "deck_ok (deck ?s3)"
    using ok by (simp add: build_and_shuffle_def deck_ok_def)
  have f3: "game_state ?s3 = PLAYER_TURN" "\<not> player_busted ?s3" "\<not> dealer_busted ?s3"
    by (simp_all add: build_and_shuffle_def)
  from ok3 rnd obtain c1 c2 c3 c4 t1 t2 t3 t4 where d:
    "deal rnd ?s3 = (Some c1, t1)" "deal rnd t1 = (Some c2, t2)"
    "deal rnd t2 = (Some c3, t3)" "deal rnd t3 = (Some c4, t4)"
    and t4: "deck_ok (deck t4)" "same_table ?s3 t4"
    by (rule four_deals_frame)
  have s4: "?s4 = t4\<lparr>player_hand := [c1, c3], dealer_hand := [c2, c4]\<rparr>"
    using d by (rule two_pairs) simp_all
  have f4: "game_state t4 = PLAYER_TURN" "\<not> player_busted t4" "\<not> dealer_busted t4"
    using t4(2) f3 by (simp_all add: same_table_def)
  have p21: "calculate_hand_value [c1, c3] \<le> 21" and d21: "calculate_hand_value [c2, c4] \<le> 21"
    by (simp_all add: two_card_value)
  show ?thesis
    unfolding s' s4 using t4(1) f4 p21 d21
    by (simp add: round_inv_def)
qed


lemma hit_round_inv:
  assumes inv: "round_inv s" and rnd: "permutes_cards rnd" and res: "hit rnd s = Some s'"
  shows "round_inv s'"
proof -
  have g: "game_state s = PLAYER_TURN"
    using res by (simp add: hit_def split: if_splits)
  from inv have ok: "deck_ok (deck s)" by (simp add: round_inv_def)
  from ok rnd obtain c s1 where d: "deal rnd s = (Some c, s1)" "deck_ok (deck s1)"
    "same_table s s1" "dealer_hand s1 = dealer_hand s"
    by (rule deal_total)
  let ?s2 = "s1\<lparr>player_hand := player_hand s1 @ [c]\<rparr>"
  have s': "s' = (if calculate_hand_value (player_hand ?s2) > 21
                  then ?s2\<lparr>player_busted := True, game_state := SHOWDOWN\<rparr> else ?s2)"
    using res g d(1) by (auto simp: hit_def Let_def)
  have d21: "calculate_hand_value (dealer_hand s) \<le> 21"
    using inv g by (simp add: round_inv_def two_card_value)
  show ?thesis
    unfolding s' using inv g d(2-4) d21
    by (simp add: round_inv_def same_table_def flags_ok_def)
qed

lemma stand_round_inv:
  assumes inv: "round_inv s" and res: "stand s = Some s'"
  shows "round_inv s'"
proof -
  have g: "game_state s = PLAYER_TURN" and s': "s' = s\<lparr>game_state := DEALER_TURN\<rparr>"
    using res by (simp_all add: stand_def split: if_splits)
  show ?thesis
    unfolding s' using inv g by (auto simp: round_inv_def)
qed

lemma double_down_round_inv:
  assumes inv: "round_inv s" and rnd: "permutes_cards rnd"
    and res: "double_down rnd s = Some s'"
  shows "round_inv s'"
proof -
  have g: "game_state s = PLAYER_TURN" and can: "can_double_down s"
    using res by (simp_all add: double_down_def split: if_splits)
  let ?s2 = "s\<lparr>player_money := player_money s - bet s, bet := bet s * 2\<rparr>"
  from inv have "deck_ok (deck ?s2)" by (simp add: round_inv_def)
  from this rnd obtain c s3 where d: "deal rnd ?s2 = (Some c, s3)" "deck_ok (deck s3)"
    "same_table ?s2 s3" "dealer_hand s3 = dealer_hand ?s2"
    by (rule deal_total)
  let ?s4 = "s3\<lparr>player_hand := player_hand s3 @ [c]\<rparr>"
  have s': "s' = (if calculate_hand_value (player_hand ?s4) > 21
                  then ?s4\<lparr>player_busted := True, game_state := SHOWDOWN\<rparr>
                  else ?s4\<lparr>game_state := DEALER_TURN\<rparr>)"
    using res g can d(1) by (auto simp: double_down_def Let_def)
  have d21: "calculate_hand_value (dealer_hand s) \<le> 21"
    using inv g by (simp add: round_inv_def two_card_value)
  show ?thesis
    unfolding s' using inv g d(2-4) d21
    by (simp add: round_inv_def same_table_def flags_ok_def)
qed

lemma process_dealer_turn_draws:
  assumes "deck_ok (deck s)" and "permutes_cards rnd" and "\<not> player_busted s"
  obtains s2 drawn where
    "process_dealer_turn rnd s =
       Some ((if calculate_hand_value (dealer_hand s2) > 21
              then s2\<lparr>dealer_busted := True\<rparr> else s2)\<lparr>game_state := SHOWDOWN\<rparr>)"
    "17 \<le> calculate_hand_value (dealer_hand s2)"
    "dealer_hand s2 = dealer_hand s @ drawn"
    "\<forall>n<length drawn. calculate_hand_value (dealer_hand s @ take n drawn) < 17"
    "same_table (s\<lparr>show_dealer_card := True\<rparr>) s2" "deck_ok (deck s2)"
proof -
  let ?s1 = "s\<lparr>show_dealer_card := True\<rparr>"
  have "deck_ok (deck ?s1)" using assms(1) by simp
  from dealer_loop_total [OF this assms(2)] obtain s2 drawn where r:
    "dealer_loop rnd ?s1 = Some s2"
    "17 \<le> calculate_hand_value (dealer_hand s2)"
    "dealer_hand s2 = dealer_hand s @ drawn"
    "\<forall>n<length drawn. calculate_hand_value (dealer_hand s @ take n drawn) < 17"
    "same_table ?s1 s2" "deck_ok (deck s2)"
    by auto
  have "process_dealer_turn rnd s =
       Some ((if calculate_hand_value (dealer_hand s2) > 21
              then s2\<lparr>dealer_busted := True\<rparr> else s2)\<lparr>game_state := SHOWDOWN\<rparr>)"
    using assms(3) r(1) by (simp add: process_dealer_turn_def Let_def)
  from this r(2-6) show ?thesis by (rule that)
qed

lemma dealer_round_inv:
  assumes inv: "round_inv s" and rnd: "permutes_cards rnd"
    and g: "game_state s = DEALER_TURN" and res: "process_dealer_turn rnd s = Some s'"
  shows "round_inv s'"
proof -
  from inv g have ok: "deck_ok (deck s)" and nb: "\<not> player_busted s"
    by (simp_all add: round_inv_def)
  from ok rnd nb obtain s2 drawn where r:
    "process_dealer_turn rnd s =
       Some ((if calculate_hand_value (dealer_hand s2) > 21
              then s2\<lparr>dealer_busted := True\<rparr> else s2)\<lparr>game_state := SHOWDOWN\<rparr>)"
    "17 \<le> calculate_hand_value (dealer_hand s2)"
    "dealer_hand s2 = dealer_hand s @ drawn"
    "\<forall>n<length drawn. calculate_hand_value (dealer_hand s @ take n drawn) < 17"
    "same_table (s\<lparr>show_dealer_card := True\<rparr>) s2" "deck_ok (deck s2)"
    by (rule process_dealer_turn_draws)
  have s': "s' = (if calculate_hand_value (dealer_hand s2) > 21
              then s2\<lparr>dealer_busted := True\<rparr> else s2)\<lparr>game_state := SHOWDOWN\<rparr>"
    using res r(1) by simp
  have stay: "drawn = []" if "calculate_hand_value (dealer_hand s) = 21"
  proof (rule ccontr)
    assume "drawn \<noteq> []"
    then have "0 < length drawn" by simp
    with r(4) have "calculate_hand_value (dealer_hand s @ take 0 drawn) < 17" by blast
    with that show False by simp
  qed
  have bj: "dealer_blackjack s \<longleftrightarrow>
      length (dealer_hand s2) = 2 \<and> calculate_hand_value (dealer_hand s2) = 21"
  proof (cases "calculate_hand_value (dealer_hand s) = 21")
    case True
    with stay r(3) inv g show ?thesis by (simp add: round_inv_def)
  next
    case False
    have "drawn = [] \<or> length (dealer_hand s2) \<noteq> 2"
      using r(3) inv g by (cases drawn) (simp_all add: round_inv_def)
    with False r(3) inv g show ?thesis by (auto simp: round_inv_def)
  qed
  have f: "\<not> player_busted s2" "\<not> dealer_busted s2"
    "player_blackjack s2 = player_blackjack s" "dealer_blackjack s2 = dealer_blackjack s"
    "player_hand s2 = player_hand s"
    using r(5) inv g by (simp_all add: same_table_def round_inv_def)
  have p: "calculate_hand_value (player_hand s2) \<le> 21"
    "player_blackjack s2 \<longleftrightarrow>
       length (player_hand s2) = 2 \<and> calculate_hand_value (player_hand s2) = 21"
    using inv g f(3,5) by (simp_all add: round_inv_def)
  have "flags_ok s'"
  proof (cases "calculate_hand_value (dealer_hand s2) > 21")
    case True
    with f p bj show ?thesis
      unfolding s' by (simp add: flags_ok_def)
  next
    case False
    with f p bj show ?thesis
      unfolding s' by (simp add: flags_ok_def)
  qed
  moreover have "game_state s' = SHOWDOWN" "deck_ok (deck s')"
    unfolding s' using r(6) by simp_all
  ultimately show ?thesis
    by (simp add: round_inv_def)
qed

lemma in_round_inv:
  assumes "in_round rnd s" and "permutes_cards rnd"
  shows "round_inv s"
  using assms
proof (induction rule: in_round.induct)
  case (bet s0 amount s)
  then show ?case by (blast intro: place_bet_round_inv)
next
  case (hit s s')
  then show ?case by (blast intro: hit_round_inv)
next
  case (stand s s')
  then show ?case by (blast intro: stand_round_inv)
next
  case (double_down s s')
  then show ?case by (blast intro: double_down_round_inv)
next
  case (dealer s s')
  then show ?case by (blast intro: dealer_round_inv)
qed

lemma showdown_flags_ok:
  "in_round rnd s \<Longrightarrow> permutes_cards rnd \<Longrightarrow> game_state s = SHOWDOWN \<Longrightarrow> flags_ok s"
  using in_round_inv [of rnd s] by (simp add: round_inv_def)

section \<open>The showdown\<close>

lemma settle_resolve:
  "\<exists>out. resolve s = Some out
     \<and> List.map_filter outcome_of (message (settle s)) = [out]
     \<and> player_money (settle s) = player_money s + fst (delta out (bet s))
     \<and> dealer_money (settle s) = dealer_money s + snd (delta out (bet s))"
  by (simp add: resolve_def settle_def Let_def List.map_filter_def)

lemma process_showdown_settle:
  "player_money (process_showdown s) = player_money (settle s)"
  "dealer_money (process_showdown s) = dealer_money (settle s)"
  "List.map_filter outcome_of (message (process_showdown s))
     = List.map_filter outcome_of (message (settle s))"
  "round_over (process_showdown s)"
  by (simp_all add: process_showdown_def Let_def List.map_filter_def)

lemma resolve_flags_ok:
  "flags_ok s \<Longrightarrow> resolve s = resolve_hands (player_hand s) (dealer_hand s)"
  by (simp add: flags_ok_def resolve_def resolve_hands_def isBust_def isBlackjack_def)

lemma result_phase_settle:
  assumes "player_hand s = map (\<lambda>(u, r). Card u r) (script_player_hand t)"
    and "dealer_hand s = map (\<lambda>(u, r). Card u r) (script_dealer_hand t)"
    and "bet s = script_bet t"
    and "player_busted s \<longleftrightarrow> 21 < calculate_hand_value (player_hand s)"
    and "dealer_busted s \<longleftrightarrow> 21 < calculate_hand_value (dealer_hand s)"
    and "\<not> player_blackjack s" and "\<not> dealer_blackjack s"
  shows "script_player_money (result_phase t) - script_player_money t
           = player_money (settle s) - player_money s"
    and "script_dealer_money (result_phase t) - script_dealer_money t
           = dealer_money (settle s) - dealer_money s"
  using assms
  by (simp_all add: result_phase_def settle_def Let_def calculate_hand_value_pairs_eq)

lemma blackjack_round_eq:
  "in_round (\<lambda>k. rev) blackjack_round"
  "game_state blackjack_round = SHOWDOWN"
  "player_hand blackjack_round = [Card Spades A, Card Hearts K]"
  "dealer_hand blackjack_round = [Card Clubs R9, Card Diamonds R8]"
  "bet blackjack_round = 10"
  "player_money blackjack_round = 500"
  "dealer_money blackjack_round = 5000000"
proof -
  let ?t = "table BETTING 500 0 [] []
            [Card Spades A, Card Clubs R9, Card Hearts K, Card Diamonds R8]"
  have vp: "calculate_hand_value [Card Spades A, Card Hearts K] = 21"
    and vd: "calculate_hand_value [Card Clubs R9, Card Diamonds R8] = 17"
    by (simp_all add: calculate_hand_value_def card_value_def adjust_aces_stop)
  have b: "display_betting_screen (\<lambda>k. rev) 10 ?t =
     (None,
      ?t\<lparr>bet := 10, message := [],
        round_over := False, show_dealer_card := False,
        player_busted := False, dealer_busted := False,
        reshuffled_message := [],
        deck := (deck ?t)\<lparr>cards := build_cards 1\<rparr>,
        player_hand := [Card Spades A, Card Hearts K],
        dealer_hand := [Card Clubs R9, Card Diamonds R8],
        player_blackjack := True, dealer_blackjack := False,
        game_state := DEALER_TURN\<rparr>)" (is "_ = (None, ?s1)")
    using place_bet_top [of ?t 10 "build_cards 1" "Card Diamonds R8" "Card Hearts K"
        "Card Clubs R9" "Card Spades A" "\<lambda>k. rev"]
    by (simp add: vp vd) (simp add: table_def shoe_def length_build_cards)
  have r1: "in_round (\<lambda>k. rev) ?s1"
    by (rule in_round.bet [OF _ _ b]) (simp_all add: deck_ok_shoe, simp add: table_def)
  let ?s1' = "?s1\<lparr>show_dealer_card := True\<rparr>"
  have "dealer_loop (\<lambda>k. rev) ?s1' = Some ?s1'"
    by (subst dealer_loop.simps) (simp add: vd)
  then have p: "process_dealer_turn (\<lambda>k. rev) ?s1 = Some (?s1'\<lparr>game_state := SHOWDOWN\<rparr>)"
    by (simp add: process_dealer_turn_def Let_def vd)
  have e: "blackjack_round = ?s1'\<lparr>game_state := SHOWDOWN\<rparr>"
    by (simp only: blackjack_round_def b snd_conv p option.sel)
  have "in_round (\<lambda>k. rev) (?s1'\<lparr>game_state := SHOWDOWN\<rparr>)"
    by (rule in_round.dealer [OF r1 _ p]) simp
  then show "in_round (\<lambda>k. rev) blackjack_round"
    by (simp only: e)
  show "game_state blackjack_round = SHOWDOWN"
    "player_hand blackjack_round = [Card Spades A, Card Hearts K]"
    "dealer_hand blackjack_round = [Card Clubs R9, Card Diamonds R8]"
    "bet blackjack_round = 10" "player_money blackjack_round = 500"
    "dealer_money blackjack_round = 5000000"
    unfolding e by (simp_all add: table_def)
qed

lemma result_phase_resolve:
  "\<exists>out. resolve_script t = Some out
     \<and> outcome_of_text (script_message (result_phase t)) = Some out
     \<and> script_player_money (result_phase t) = script_player_money t + fst (delta out (script_bet t))
     \<and> script_dealer_money (result_phase t) = script_dealer_money t + snd (delta out (script_bet t))
     \<and> out \<in> {PlayerBust, DealerBust, PlayerWin, DealerWin, Push_tie}"
  by (simp add: resolve_script_def result_phase_def outcome_of_text_def Let_def)

lemma script_values:
  "calculate_hand_value_pairs [(Spades, A), (Hearts, K)] = 21"
  "calculate_hand_value_pairs [(Clubs, R9), (Diamonds, R8)] = 17"
  by (simp_all add: calculate_hand_value_pairs_def adjust_aces_stop)

text \<open>
  In the single-deck script the player's blackjack is an ordinary win. With the Ace and the
  King against the dealer's 9 and 8 and a bet of 10, the result phase announces
  \<^verbatim>\<open>You win!\<close> and moves 10, not 15: the player has 510 afterwards and the dealer
  4999990. The script has no outcome for a blackjack.
\<close>

theorem result_phase_blackjack_counterexample:
  "calculate_hand_value_pairs [(Spades, A), (Hearts, K)] = 21
   \<and> calculate_hand_value_pairs [(Clubs, R9), (Diamonds, R8)] = 17
   \<and> script_player_money (result_phase
        (script_table result 500 10 [(Spades, A), (Hearts, K)] [(Clubs, R9), (Diamonds, R8)] []))
       = 510
   \<and> script_player_money (result_phase
        (script_table result 500 10 [(Spades, A), (Hearts, K)] [(Clubs, R9), (Diamonds, R8)] []))
       \<noteq> 500 + 3 / 2 * 10
   \<and> script_dealer_money (result_phase
        (script_table result 500 10 [(Spades, A), (Hearts, K)] [(Clubs, R9), (Diamonds, R8)] []))
       = 4999990
   \<and> script_message (result_phase
        (script_table result 500 10 [(Spades, A), (Hearts, K)] [(Clubs, R9), (Diamonds, R8)] []))
       = ''You win!''"
  by (simp add: script_values result_phase_def script_table_def Let_def)

text \<open>
  C1, for the multi-deck engine and for the script. In the engine, \<^verbatim>\<open>process_showdown\<close>
  announces exactly one outcome, the one the priority order of the specification picks:
  the player's bust, then the dealer's bust, then the push of two blackjacks, then the
  player's blackjack alone, then the dealer's blackjack alone, then the higher hand
  value, then the push of equal values. It moves the balances by the delta of that
  outcome: \<open>(- bet, + bet)\<close> when the player busts or loses, \<open>(+ bet, - bet)\<close> when the
  dealer busts or the player wins, one and a half times the bet for the player's
  blackjack, nothing for a push. The busts and blackjacks it looks at are the flags of the
  session; at the showdown of a round they are those of the hands, so the outcome is the
  one the same order picks from the two final hands. In the single-deck script, one pass
  through the result phase announces exactly one outcome as well, by the order without the
  three blackjack cases: the player's bust, then the dealer's bust, then the higher hand
  value, then the push; and it moves the balances by the same delta of that outcome.
\<close>

theorem process_showdown_priority:
  "(\<exists>out. resolve s = Some out
     \<and> List.map_filter outcome_of (message (process_showdown s)) = [out]
     \<and> player_money (process_showdown s) = player_money s + fst (delta out (bet s))
     \<and> dealer_money (process_showdown s) = dealer_money s + snd (delta out (bet s)))
   \<and> (in_round rnd s \<and> permutes_cards rnd \<and> game_state s = SHOWDOWN
        \<longrightarrow> resolve s = resolve_hands (player_hand s) (dealer_hand s))
   \<and> (\<exists>out. resolve_script t = Some out
     \<and> outcome_of_text (script_message (result_phase t)) = Some out
     \<and> script_player_money (result_phase t)
         = script_player_money t + fst (delta out (script_bet t))
     \<and> script_dealer_money (result_phase t)
         = script_dealer_money t + snd (delta out (script_bet t))
     \<and> out \<in> {PlayerBust, DealerBust, PlayerWin, DealerWin, Push_tie})"
proof -
  have engine: "\<exists>out. resolve s = Some out
     \<and> List.map_filter outcome_of (message (process_showdown s)) = [out]
     \<and> player_money (process_showdown s) = player_money s + fst (delta out (bet s))
     \<and> dealer_money (process_showdown s) = dealer_money s + snd (delta out (bet s))"
    unfolding process_showdown_settle by (rule settle_resolve)
  have flags: "in_round rnd s \<and> permutes_cards rnd \<and> game_state s = SHOWDOWN
        \<longrightarrow> resolve s = resolve_hands (player_hand s) (dealer_hand s)"
    using showdown_flags_ok [of rnd s] resolve_flags_ok [of s] by blast
  from engine flags result_phase_resolve [of t] show ?thesis
    by (intro conjI)
qed

theorem process_showdown_priority_witness:
  "in_round (\<lambda>k. rev) blackjack_round \<and> permutes_cards (\<lambda>k. rev)
   \<and> game_state blackjack_round = SHOWDOWN
   \<and> resolve_hands (player_hand blackjack_round) (dealer_hand blackjack_round)
       = Some PlayerBlackjack
   \<and> resolve blackjack_round = Some PlayerBlackjack
   \<and> player_money (process_showdown blackjack_round) = 515
   \<and> dealer_money (process_showdown blackjack_round) = 4999985
   \<and> resolve_script
        (script_table result 500 10 [(Hearts, R10), (Clubs, R6), (Spades, R8)]
           [(Diamonds, K), (Hearts, R7)] [])
       = Some PlayerBust
   \<and> script_player_money (result_phase
        (script_table result 500 10 [(Hearts, R10), (Clubs, R6), (Spades, R8)]
           [(Diamonds, K), (Hearts, R7)] []))
       = 490
   \<and> script_dealer_money (result_phase
        (script_table result 500 10 [(Hearts, R10), (Clubs, R6), (Spades, R8)]
           [(Diamonds, K), (Hearts, R7)] []))
       = 5000010"
proof -
  let ?u = "script_table result 500 10 [(Hearts, R10), (Clubs, R6), (Spades, R8)]
           [(Diamonds, K), (Hearts, R7)] []"
  note th = process_showdown_priority [of blackjack_round "\<lambda>k. rev" ?u]
  have h: "resolve_hands (player_hand blackjack_round) (dealer_hand blackjack_round)
      = Some PlayerBlackjack"
    by (simp add: blackjack_round_eq resolve_hands_def isBust_def isBlackjack_def
        calculate_hand_value_def card_value_def adjust_aces_stop)
  from th [THEN conjunct2, THEN conjunct1] blackjack_round_eq(1,2) permutes_cards_rev h
  have r: "resolve blackjack_round = Some PlayerBlackjack"
    by simp
  from th [THEN conjunct1] obtain out where out: "resolve blackjack_round = Some out"
    "player_money (process_showdown blackjack_round)
       = player_money blackjack_round + fst (delta out (bet blackjack_round))"
    "dealer_money (process_showdown blackjack_round)
       = dealer_money blackjack_round + snd (delta out (bet blackjack_round))"
    by blast
  from out(1) r have "out = PlayerBlackjack" by simp
  with out(2,3) have e: "player_money (process_showdown blackjack_round) = 515"
    "dealer_money (process_showdown blackjack_round) = 4999985"
    by (simp_all add: blackjack_round_eq)
  have v: "calculate_hand_value_pairs [(Hearts, R10), (Clubs, R6), (Spades, R8)] = 24"
    by (simp add: calculate_hand_value_pairs_def adjust_aces_stop)
  then have rs: "resolve_script ?u = Some PlayerBust"
    by (simp add: resolve_script_def script_table_def Let_def)
  from th [THEN conjunct2, THEN conjunct2] obtain out' where out':
    "resolve_script ?u = Some out'"
    "script_player_money (result_phase ?u)
       = script_player_money ?u + fst (delta out' (script_bet ?u))"
    "script_dealer_money (result_phase ?u)
       = script_dealer_money ?u + snd (delta out' (script_bet ?u))"
    by blast
  from out'(1) rs have "out' = PlayerBust" by simp
  with out'(2,3) have e': "script_player_money (result_phase ?u) = 490"
    "script_dealer_money (result_phase ?u) = 5000010"
    by (simp_all add: script_table_def)
  from r h blackjack_round_eq(1,2) permutes_cards_rev e rs e' show ?thesis
    by (intro conjI)
qed

text \<open>
  Nothing in the script marks a round as settled. The run that a click on
  \<^verbatim>\<open>Play Again\<close> causes goes through the result phase once more before it reaches the
  button, so a round that is played on is settled a second time: the win of 10 above
  leaves the player with 520.
\<close>

lemma result_run_play_again:
  "script_player_money (result_run shuffle True (result_run shuffle False
      (script_table result 500 10 [(Spades, A), (Hearts, K)] [(Clubs, R9), (Diamonds, R8)] [])))
     = 520"
  by (simp add: script_values result_run_def result_phase_def script_table_def Let_def)

text \<open>
  With the balances and the bet read as exact numbers, settling a round creates and
  destroys no money, in the engine and in the script. The source keeps them as binary
  floating-point numbers; the rounding of its two updates is outside this development.
\<close>

lemma settle_conserves_exact:
  "player_money (process_showdown s) + dealer_money (process_showdown s)
     = player_money s + dealer_money s
   \<and> script_player_money (result_phase t) + script_dealer_money (result_phase t)
     = script_player_money t + script_dealer_money t"
  unfolding process_showdown_settle
  by (simp add: settle_def result_phase_def Let_def)

end
